theory Spec2Isabelle
  imports Main "HOL-Library.Word" "HOL-Library.Sublist"
begin

section \<open>Data model of package expo\<close>

text \<open>
  The repository holds several historical variants of one client. The message, receipt and
  envelope structs are the same in all of them except for the type of the field \<open>To\<close>: a
  single token in the single-token clients, a slice of tokens in the multi-recipient client.
  The records are therefore polymorphic in the type of \<open>To\<close>.
  Go strings are byte sequences, modelled as \<open>string\<close>. A Go slice or map that may be
  \<open>nil\<close> and is tested against \<open>nil\<close> by the code is an \<open>option\<close> (\<open>None\<close> is \<open>nil\<close>).
  Lengths (\<open>len\<close>) are natural numbers; the fields of Go type \<open>int\<close> that are only carried
  around are integers.
\<close>

type_synonym ExponentPushToken = string

record 'to PushMessage =
  To :: 'to
  Body :: string
  Data :: "(string \<rightharpoonup> string) option"
  Sound :: string
  Title :: string
  TTLSeconds :: int
  Expiration :: "64 word"
  Priority :: string
  Badge :: int
  ChannelID :: string

record 'to PushResponse =
  PushMessage :: "'to PushMessage"
  Status :: string
  Message :: string
  Details :: "(string \<rightharpoonup> string) option"

record 'to Response =
  Data :: "'to PushResponse list option"
  Errors :: "(string \<rightharpoonup> string) list option"

text \<open>The part of \<open>http.Response\<close> and \<open>http.Request\<close> that the clients read or write.\<close>

record http_Response =
  StatusCode :: int
  Status :: string
  Body :: string

record http_Request =
  Method :: string
  URL :: string
  Body :: string
  Header :: "(string \<times> string) list"

text \<open>
  Errors as values. \<open>errors_New\<close> and \<open>fmt_Errorf\<close> carry the rendered text;
  \<open>json_Error\<close>, \<open>url_Error\<close> and \<open>net_Error\<close> are the errors that \<open>encoding/json\<close>,
  \<open>http.NewRequest\<close> and the HTTP client hand back and that the clients return unchanged;
  \<open>PushServerError\<close> is the struct of that name with its fields \<open>Message\<close>, \<open>Response\<close>,
  \<open>ResponseData\<close> and \<open>Errors\<close>, in that order.
\<close>

datatype 'to error =
    errors_New string
  | fmt_Errorf string
  | json_Error string
  | url_Error string
  | net_Error string
  | PushServerError string http_Response "'to Response" "(string \<rightharpoonup> string) list option"

datatype panic = nil_pointer_dereference | index_out_of_range

text \<open>
  What a call gives back: \<open>Ok v\<close> is the Go pair \<open>(v, nil)\<close>, \<open>Err e\<close> is
  \<open>(zero value, e)\<close>, and \<open>Panic p\<close> is a run-time panic.
\<close>

datatype ('to, 'a) returned = Ok 'a | Err "'to error" | Panic panic

definition NewPushServerError ::
  "string \<Rightarrow> http_Response \<Rightarrow> 'to Response \<Rightarrow> (string \<rightharpoonup> string) list option \<Rightarrow> 'to error" where
  "NewPushServerError message response responseData errors =
     PushServerError message response responseData errors"

section \<open>Tokens\<close>

definition strings_HasPrefix :: "string \<Rightarrow> string \<Rightarrow> bool" where
  "strings_HasPrefix s pre = prefix pre s"

definition ErrMalformedToken :: "'to error" where
  "ErrMalformedToken = errors_New ''Token should start with ExponentPushToken''"

definition NewExponentPushToken :: "string \<Rightarrow> ('to, ExponentPushToken) returned" where
  "NewExponentPushToken token =
     (if \<not> strings_HasPrefix token ''ExponentPushToken'' then Err ErrMalformedToken
      else Ok token)"

section \<open>Rendering of numbers by package fmt\<close>

text \<open>The verb \<open>%d\<close> prints an integer in decimal, with a minus sign when negative.\<close>

definition digit :: "nat \<Rightarrow> char" where
  "digit d = ''0123456789'' ! d"

function show_nat :: "nat \<Rightarrow> string" where
  "show_nat n = (if n < 10 then [digit n] else show_nat (n div 10) @ [digit (n mod 10)])"
  by pat_completeness auto
termination
  by (relation "measure id") auto

declare show_nat.simps [simp del]

definition show_int :: "int \<Rightarrow> string" where
  "show_int i = (if i < 0 then CHR ''-'' # show_nat (nat (- i)) else show_nat (nat i))"

section \<open>The standard library, as far as the clients call it\<close>

text \<open>
  An \<open>*http.Client\<close> is the function of its method \<open>Do\<close>: it answers a request with a
  response or with the text of a network error. \<open>json.Marshal\<close>, the JSON decoder and the
  URL parser inside \<open>http.NewRequest\<close> are parameters, collected in a record. The decoder
  fills a \<open>*Response\<close>, which stays \<open>nil\<close> (here \<open>None\<close>) when the body is the JSON value
  \<open>null\<close>.
\<close>

type_synonym http_Client = "http_Request \<Rightarrow> string + http_Response"

record 'to stdlib =
  json_Marshal :: "'to PushMessage list \<Rightarrow> string + string"
  json_Decode :: "string \<Rightarrow> string + 'to Response option"
  url_Parse :: "string \<Rightarrow> string option"

definition http_NewRequest ::
  "'to stdlib \<Rightarrow> string \<Rightarrow> string \<Rightarrow> string \<Rightarrow> string + http_Request" where
  "http_NewRequest lib method url body =
     (case url_Parse lib url of
        Some e \<Rightarrow> Inl e
      | None \<Rightarrow> Inr \<lparr>Method = method, URL = url, http_Request.Body = body, Header = []\<rparr>)"

definition Header_Add :: "http_Request \<Rightarrow> string \<Rightarrow> string \<Rightarrow> http_Request" where
  "Header_Add req key val = req\<lparr>Header := Header req @ [(key, val)]\<rparr>"

section \<open>The clients\<close>

text \<open>
  The client struct grew over the variants: \<open>host\<close>, \<open>apiURL\<close> and \<open>httpClient\<close> in
  \<open>sdk/push_client.go\<close>, then \<open>accessToken\<close>, then \<open>url\<close>.
\<close>

record PushClient =
  host :: string
  apiURL :: string
  httpClient :: http_Client

record PushClient_token = PushClient +
  accessToken :: string

record PushClient_url = PushClient_token +
  url :: string

section \<open>The multi-recipient client\<close>

text \<open>
  In this variant \<open>To\<close> is a slice of tokens. \<open>publishInternal\<close> is one function in the
  source; here its loops are recursive functions, and its body is cut in three at the
  places where the specification cuts it: the validation loop, the exchange with the
  gateway, and the checks on the decoded envelope with the loop that attaches the messages.
  Every call gives back, beside its outcome, the requests it has handed to the HTTP client.
\<close>

type_synonym tokens = "ExponentPushToken list"

fun validate_recipients :: "tokens \<Rightarrow> tokens error option" where
  "validate_recipients [] = None"
| "validate_recipients (recipient # rest) =
     (if recipient = '''' then Some (errors_New ''Invalid push token'')
      else validate_recipients rest)"

fun publishInternal_validate :: "tokens PushMessage list \<Rightarrow> nat \<Rightarrow> tokens error + nat" where
  "publishInternal_validate [] expectedReceipts = Inr expectedReceipts"
| "publishInternal_validate (message # rest) expectedReceipts =
     (if length (To message) = 0 then Inl (errors_New ''No recipients'')
      else case validate_recipients (To message) of
             Some e \<Rightarrow> Inl e
           | None \<Rightarrow> publishInternal_validate rest (expectedReceipts + length (To message)))"

definition checkStatus :: "http_Response \<Rightarrow> 'to error option" where
  "checkStatus resp =
     (if StatusCode resp \<ge> 200 \<and> StatusCode resp \<le> 299 then None
      else Some (fmt_Errorf (''Invalid response ('' @ show_int (StatusCode resp) @ '' ''
                               @ http_Response.Status resp @ '')'')))"

text \<open>
  The inner and the outer loop of the walk over the batch. Writing \<open>r.Data[i]\<close> with
  \<open>i\<close> out of range panics; \<open>None\<close> stands for that panic.
\<close>

fun attach_recipients ::
  "tokens PushMessage \<Rightarrow> tokens \<Rightarrow> nat \<Rightarrow> tokens PushResponse list
     \<Rightarrow> (nat \<times> tokens PushResponse list) option" where
  "attach_recipients msg [] i data = Some (i, data)"
| "attach_recipients msg (to # rest) i data =
     (if i < length data then
        let data1 = data[i := (data ! i)\<lparr>PushMessage := msg\<rparr>];
            data2 = data1[i := (data1 ! i)\<lparr>PushMessage := (PushMessage (data1 ! i))\<lparr>To := [to]\<rparr>\<rparr>]
        in attach_recipients msg rest (i + 1) data2
      else None)"

fun attach_messages ::
  "tokens PushMessage list \<Rightarrow> nat \<Rightarrow> tokens PushResponse list
     \<Rightarrow> (nat \<times> tokens PushResponse list) option" where
  "attach_messages [] i data = Some (i, data)"
| "attach_messages (msg # rest) i data =
     (case attach_recipients msg (To msg) i data of
        None \<Rightarrow> None
      | Some (i', data') \<Rightarrow> attach_messages rest i' data')"

definition mismatched_length :: "nat \<Rightarrow> nat \<Rightarrow> string" where
  "mismatched_length a b =
     ''Mismatched response length. Expected '' @ show_int (int a)
       @ '' receipts but only received '' @ show_int (int b)"

definition publishInternal_reconcile ::
  "http_Response \<Rightarrow> tokens Response \<Rightarrow> tokens PushMessage list \<Rightarrow> nat
     \<Rightarrow> (tokens, tokens PushResponse list) returned" where
  "publishInternal_reconcile resp r messages expectedReceipts =
     (if Errors r \<noteq> None then
        Err (NewPushServerError ''Invalid server response'' resp r (Errors r))
      else case Response.Data r of
        None \<Rightarrow> Err (NewPushServerError ''Invalid server response'' resp r None)
      | Some data \<Rightarrow>
          if expectedReceipts \<noteq> length data then
            Err (NewPushServerError (mismatched_length (length messages) (length data))
                   resp r None)
          else (case attach_messages messages 0 data of
                  None \<Rightarrow> Panic index_out_of_range
                | Some (i, data') \<Rightarrow> Ok data'))"

definition publishInternal_send ::
  "tokens stdlib \<Rightarrow> 'c PushClient_token_scheme \<Rightarrow> tokens PushMessage list \<Rightarrow> nat
     \<Rightarrow> (tokens, tokens PushResponse list) returned \<times> http_Request list" where
  "publishInternal_send lib c messages expectedReceipts =
     (let url = host c @ apiURL c @ ''/push/send'' in
      case json_Marshal lib messages of
        Inl e \<Rightarrow> (Err (json_Error e), [])
      | Inr jsonBytes \<Rightarrow>
      case http_NewRequest lib ''POST'' url jsonBytes of
        Inl e \<Rightarrow> (Err (url_Error e), [])
      | Inr req0 \<Rightarrow>
      let req1 = Header_Add req0 ''Content-Type'' ''application/json'';
          req = (if accessToken c \<noteq> ''''
                 then Header_Add req1 ''Authorization'' (''Bearer '' @ accessToken c)
                 else req1)
      in
      case httpClient c req of
        Inl e \<Rightarrow> (Err (net_Error e), [req])
      | Inr resp \<Rightarrow>
      case checkStatus resp of
        Some e \<Rightarrow> (Err e, [req])
      | None \<Rightarrow>
      case json_Decode lib (http_Response.Body resp) of
        Inl e \<Rightarrow> (Err (json_Error e), [req])
      | Inr None \<Rightarrow> (Panic nil_pointer_dereference, [req])
      | Inr (Some r) \<Rightarrow> (publishInternal_reconcile resp r messages expectedReceipts, [req]))"

definition publishInternal ::
  "tokens stdlib \<Rightarrow> 'c PushClient_token_scheme \<Rightarrow> tokens PushMessage list
     \<Rightarrow> (tokens, tokens PushResponse list) returned \<times> http_Request list" where
  "publishInternal lib c messages =
     (case publishInternal_validate messages 0 of
        Inl e \<Rightarrow> (Err e, [])
      | Inr expectedReceipts \<Rightarrow> publishInternal_send lib c messages expectedReceipts)"

definition PublishMultiple ::
  "tokens stdlib \<Rightarrow> 'c PushClient_token_scheme \<Rightarrow> tokens PushMessage list
     \<Rightarrow> (tokens, tokens PushResponse list) returned \<times> http_Request list" where
  "PublishMultiple lib c messages = publishInternal lib c messages"

section \<open>The multi-recipient client over a store\<close>

text \<open>
  Slices are references in Go: the struct copy \<open>r.Data[i].PushMessage = msg\<close> copies the
  slice header of \<open>msg.To\<close>, not its tokens. To state what the call does to the caller's
  batch, the backing arrays live in a store: arrays of tokens, of messages and of receipts,
  found by reference, and the next unused reference. A slice is \<open>nil\<close> (\<open>None\<close>) or
  the reference of its backing array; in a stored message \<open>To\<close> is such a slice. The
  decoder puts the array of \<open>r.Data\<close> into the store; the walk writes into that array and
  makes a fresh one-token array for every receipt. The maps \<open>Data\<close> and \<open>Details\<close> are
  never written and stay values.
\<close>

type_synonym ref = nat
type_synonym slice = "ref option"

record store =
  token_arrays :: "ref \<Rightarrow> ExponentPushToken list"
  message_arrays :: "ref \<Rightarrow> slice PushMessage list"
  receipt_arrays :: "ref \<Rightarrow> slice PushResponse list"
  next_ref :: ref

definition tokens_at :: "store \<Rightarrow> slice \<Rightarrow> tokens" where
  "tokens_at s sl = (case sl of None \<Rightarrow> [] | Some p \<Rightarrow> token_arrays s p)"

definition messages_at :: "store \<Rightarrow> slice \<Rightarrow> slice PushMessage list" where
  "messages_at s sl = (case sl of None \<Rightarrow> [] | Some p \<Rightarrow> message_arrays s p)"

definition new_tokens :: "tokens \<Rightarrow> store \<Rightarrow> slice \<times> store" where
  "new_tokens ts s =
     (Some (next_ref s),
      s\<lparr>token_arrays := (token_arrays s)(next_ref s := ts), next_ref := Suc (next_ref s)\<rparr>)"

definition new_receipts :: "slice PushResponse list \<Rightarrow> store \<Rightarrow> ref \<times> store" where
  "new_receipts rs s =
     (next_ref s,
      s\<lparr>receipt_arrays := (receipt_arrays s)(next_ref s := rs), next_ref := Suc (next_ref s)\<rparr>)"

definition set_receipt :: "ref \<Rightarrow> nat \<Rightarrow> slice PushResponse \<Rightarrow> store \<Rightarrow> store" where
  "set_receipt d i v s = s\<lparr>receipt_arrays := (receipt_arrays s)(d := (receipt_arrays s d)[i := v])\<rparr>"

text \<open>A message with another value (of another type) in the field \<open>To\<close>.\<close>

definition with_To :: "'b \<Rightarrow> 'a PushMessage \<Rightarrow> 'b PushMessage" where
  "with_To t m =
     \<lparr>To = t, PushMessage.Body = PushMessage.Body m, PushMessage.Data = PushMessage.Data m,
      Sound = Sound m, Title = Title m, TTLSeconds = TTLSeconds m, Expiration = Expiration m,
      Priority = Priority m, Badge = Badge m, ChannelID = ChannelID m\<rparr>"

definition load_message :: "store \<Rightarrow> slice PushMessage \<Rightarrow> tokens PushMessage" where
  "load_message s m = with_To (tokens_at s (To m)) m"

definition load_batch :: "store \<Rightarrow> slice \<Rightarrow> tokens PushMessage list" where
  "load_batch s messages = map (load_message s) (messages_at s messages)"

definition load_receipt :: "store \<Rightarrow> slice PushResponse \<Rightarrow> tokens PushResponse" where
  "load_receipt s r =
     \<lparr>PushMessage = load_message s (PushMessage r), PushResponse.Status = PushResponse.Status r,
      Message = Message r, Details = Details r\<rparr>"

text \<open>The decoder's receipts, put into the store one by one.\<close>

fun store_receipts :: "tokens PushResponse list \<Rightarrow> store \<Rightarrow> slice PushResponse list \<times> store" where
  "store_receipts [] s = ([], s)"
| "store_receipts (r # rest) s =
     (let (sl, s1) = (if To (PushMessage r) = [] then (None, s)
                      else new_tokens (To (PushMessage r)) s);
          (rs, s2) = store_receipts rest s1
      in (\<lparr>PushMessage = with_To sl (PushMessage r), PushResponse.Status = PushResponse.Status r,
           Message = Message r, Details = Details r\<rparr> # rs, s2))"

text \<open>
  The two loops. \<open>range\<close> fixes the length of the slice on entry and reads element \<open>j\<close> in
  round \<open>j\<close>. An index panic leaves the store as it is at that moment.
\<close>

fun attach_recipients_store ::
  "slice PushMessage \<Rightarrow> nat list \<Rightarrow> nat \<Rightarrow> ref \<Rightarrow> store \<Rightarrow> nat option \<times> store" where
  "attach_recipients_store msg [] i d s = (Some i, s)"
| "attach_recipients_store msg (j # rest) i d s =
     (if j < length (tokens_at s (To msg)) \<and> i < length (receipt_arrays s d) then
        let to = tokens_at s (To msg) ! j;
            s1 = set_receipt d i ((receipt_arrays s d ! i)\<lparr>PushMessage := msg\<rparr>) s;
            (fresh, s2) = new_tokens [to] s1;
            s3 = set_receipt d i
                   ((receipt_arrays s2 d ! i)
                      \<lparr>PushMessage := (PushMessage (receipt_arrays s2 d ! i))\<lparr>To := fresh\<rparr>\<rparr>) s2
        in attach_recipients_store msg rest (i + 1) d s3
      else (None, s))"

fun attach_messages_store ::
  "nat list \<Rightarrow> slice \<Rightarrow> nat \<Rightarrow> ref \<Rightarrow> store \<Rightarrow> nat option \<times> store" where
  "attach_messages_store [] messages i d s = (Some i, s)"
| "attach_messages_store (k # rest) messages i d s =
     (if k < length (messages_at s messages) then
        let msg = messages_at s messages ! k in
        case attach_recipients_store msg [0..<length (tokens_at s (To msg))] i d s of
          (None, s') \<Rightarrow> (None, s')
        | (Some i', s') \<Rightarrow> attach_messages_store rest messages i' d s'
      else (None, s))"

definition decode_into_store :: "tokens Response \<Rightarrow> store \<Rightarrow> slice \<times> store" where
  "decode_into_store r s =
     (case Response.Data r of
        None \<Rightarrow> (None, s)
      | Some receipts \<Rightarrow>
          let (stored, s0) = store_receipts receipts s;
              (d, s1) = new_receipts stored s0
          in (Some d, s1))"

definition publishInternal_reconcile_store ::
  "http_Response \<Rightarrow> tokens Response \<Rightarrow> slice \<Rightarrow> slice \<Rightarrow> nat \<Rightarrow> store
     \<Rightarrow> (tokens, ref) returned \<times> store" where
  "publishInternal_reconcile_store resp r data messages expectedReceipts s =
     (if Errors r \<noteq> None then
        (Err (NewPushServerError ''Invalid server response'' resp r (Errors r)), s)
      else case data of
        None \<Rightarrow> (Err (NewPushServerError ''Invalid server response'' resp r None), s)
      | Some d \<Rightarrow>
          if expectedReceipts \<noteq> length (receipt_arrays s d) then
            (Err (NewPushServerError
                    (mismatched_length (length (messages_at s messages))
                       (length (receipt_arrays s d)))
                    resp r None), s)
          else (case attach_messages_store [0..<length (messages_at s messages)]
                       messages 0 d s of
                  (None, s') \<Rightarrow> (Panic index_out_of_range, s')
                | (Some i, s') \<Rightarrow> (Ok d, s')))"

definition publishInternal_store ::
  "tokens stdlib \<Rightarrow> 'c PushClient_token_scheme \<Rightarrow> slice \<Rightarrow> store
     \<Rightarrow> ((tokens, ref) returned \<times> http_Request list) \<times> store" where
  "publishInternal_store lib c messages s =
     (let batch = load_batch s messages in
      case publishInternal_validate batch 0 of
        Inl e \<Rightarrow> ((Err e, []), s)
      | Inr expectedReceipts \<Rightarrow>
      let target = host c @ apiURL c @ ''/push/send'' in
      case json_Marshal lib batch of
        Inl e \<Rightarrow> ((Err (json_Error e), []), s)
      | Inr jsonBytes \<Rightarrow>
      case http_NewRequest lib ''POST'' target jsonBytes of
        Inl e \<Rightarrow> ((Err (url_Error e), []), s)
      | Inr req0 \<Rightarrow>
      let req1 = Header_Add req0 ''Content-Type'' ''application/json'';
          req = (if accessToken c \<noteq> ''''
                 then Header_Add req1 ''Authorization'' (''Bearer '' @ accessToken c)
                 else req1)
      in
      case httpClient c req of
        Inl e \<Rightarrow> ((Err (net_Error e), [req]), s)
      | Inr resp \<Rightarrow>
      case checkStatus resp of
        Some e \<Rightarrow> ((Err e, [req]), s)
      | None \<Rightarrow>
      case json_Decode lib (http_Response.Body resp) of
        Inl e \<Rightarrow> ((Err (json_Error e), [req]), s)
      | Inr None \<Rightarrow> ((Panic nil_pointer_dereference, [req]), s)
      | Inr (Some r) \<Rightarrow>
          let (data, s1) = decode_into_store r s;
              (outcome, s2) =
                 publishInternal_reconcile_store resp r data messages expectedReceipts s1
          in ((outcome, [req]), s2))"

definition PublishMultiple_store ::
  "tokens stdlib \<Rightarrow> 'c PushClient_token_scheme \<Rightarrow> slice \<Rightarrow> store
     \<Rightarrow> ((tokens, ref) returned \<times> http_Request list) \<times> store" where
  "PublishMultiple_store lib c messages s = publishInternal_store lib c messages s"

section \<open>The client with the URL override\<close>

text \<open>
  This variant (the second client of the file that also holds the multi-recipient one)
  keeps \<open>To\<close> as a slice of tokens and validates like the multi-recipient client, but it
  counts one receipt per message, attaches message \<open>i\<close> to receipt \<open>i\<close>, and its
  \<open>checkStatus\<close> tells 401 and 403 from the other statuses. \<open>fmt\<close> prints an \<open>int\<close> under
  the verb \<open>%s\<close> as \<open>%!s(int=401)\<close>.
\<close>

fun publishInternal_url_validate :: "tokens PushMessage list \<Rightarrow> tokens error option" where
  "publishInternal_url_validate [] = None"
| "publishInternal_url_validate (message # rest) =
     (if length (To message) = 0 then Some (errors_New ''No recipients'')
      else case validate_recipients (To message) of
             Some e \<Rightarrow> Some e
           | None \<Rightarrow> publishInternal_url_validate rest)"

definition checkStatus_url :: "http_Response \<Rightarrow> 'to error option" where
  "checkStatus_url resp =
     (if StatusCode resp \<ge> 200 \<and> StatusCode resp \<le> 299 then None
      else if StatusCode resp = 401 \<or> StatusCode resp = 403 then
        Some (fmt_Errorf (''invalid access token %!s(int='' @ show_int (StatusCode resp) @ '')''))
      else Some (fmt_Errorf (''invalid response '' @ http_Response.Status resp)))"

text \<open>
  The loop \<open>for i := range r.Data { r.Data[i].PushMessage = messages[i] }\<close>, run over the
  indices of \<open>r.Data\<close>; an index out of range panics (\<open>None\<close>).
\<close>

fun attach_by_index ::
  "nat list \<Rightarrow> 'to PushMessage list \<Rightarrow> 'to PushResponse list \<Rightarrow> 'to PushResponse list option" where
  "attach_by_index [] messages data = Some data"
| "attach_by_index (i # rest) messages data =
     (if i < length data \<and> i < length messages
      then attach_by_index rest messages (data[i := (data ! i)\<lparr>PushMessage := messages ! i\<rparr>])
      else None)"

definition publishInternal_url ::
  "tokens stdlib \<Rightarrow> 'c PushClient_url_scheme \<Rightarrow> tokens PushMessage list
     \<Rightarrow> (tokens, tokens PushResponse list) returned \<times> http_Request list" where
  "publishInternal_url lib c messages =
     (case publishInternal_url_validate messages of
        Some e \<Rightarrow> (Err e, [])
      | None \<Rightarrow>
      let target = (if url c \<noteq> '''' then url c else host c @ apiURL c @ ''/push/send'') in
      case json_Marshal lib messages of
        Inl e \<Rightarrow> (Err (json_Error e), [])
      | Inr jsonBytes \<Rightarrow>
      case http_NewRequest lib ''POST'' target jsonBytes of
        Inl e \<Rightarrow> (Err (url_Error e), [])
      | Inr req0 \<Rightarrow>
      let req1 = Header_Add req0 ''Content-Type'' ''application/json'';
          req = (if accessToken c \<noteq> ''''
                 then Header_Add req1 ''Authorization'' (''Bearer '' @ accessToken c)
                 else req1)
      in
      case httpClient c req of
        Inl e \<Rightarrow> (Err (net_Error e), [req])
      | Inr resp \<Rightarrow>
      case checkStatus_url resp of
        Some e \<Rightarrow> (Err e, [req])
      | None \<Rightarrow>
      case json_Decode lib (http_Response.Body resp) of
        Inl e \<Rightarrow> (Err (json_Error e), [req])
      | Inr None \<Rightarrow> (Panic nil_pointer_dereference, [req])
      | Inr (Some r) \<Rightarrow>
          if Errors r \<noteq> None then
            (Err (NewPushServerError ''Invalid server response'' resp r (Errors r)), [req])
          else case Response.Data r of
            None \<Rightarrow> (Err (NewPushServerError ''Invalid server response'' resp r None), [req])
          | Some data \<Rightarrow>
              if length messages \<noteq> length data then
                (Err (NewPushServerError (mismatched_length (length messages) (length data))
                        resp r None), [req])
              else (case attach_by_index [0..<length data] messages data of
                      None \<Rightarrow> (Panic index_out_of_range, [req])
                    | Some data' \<Rightarrow> (Ok data', [req])))"

definition PublishMultiple_url ::
  "tokens stdlib \<Rightarrow> 'c PushClient_url_scheme \<Rightarrow> tokens PushMessage list
     \<Rightarrow> (tokens, tokens PushResponse list) returned \<times> http_Request list" where
  "PublishMultiple_url lib c messages = publishInternal_url lib c messages"

section \<open>The single-token client of sdk/push\_client.go\<close>

text \<open>
  Here \<open>To\<close> is one token. The request goes out through \<open>httpClient.Post\<close>, which builds
  the request, sets the content type and calls \<open>Do\<close>. \<open>checkStatus\<close> has the same text
  as in the multi-recipient client. \<open>Publish\<close> indexes the result of \<open>PublishMultiple\<close>
  at 0, which panics on an empty slice.
\<close>

definition httpClient_Post ::
  "'to stdlib \<Rightarrow> http_Client \<Rightarrow> string \<Rightarrow> string \<Rightarrow> string
     \<Rightarrow> ('to error + http_Response) \<times> http_Request list" where
  "httpClient_Post lib client target contentType body =
     (case http_NewRequest lib ''POST'' target body of
        Inl e \<Rightarrow> (Inl (url_Error e), [])
      | Inr req0 \<Rightarrow>
          let req = Header_Add req0 ''Content-Type'' contentType in
          case client req of
            Inl e \<Rightarrow> (Inl (net_Error e), [req])
          | Inr resp \<Rightarrow> (Inr resp, [req]))"

fun publishInternal_sdk_validate ::
  "ExponentPushToken PushMessage list \<Rightarrow> ExponentPushToken error option" where
  "publishInternal_sdk_validate [] = None"
| "publishInternal_sdk_validate (message # rest) =
     (if To message = '''' then Some (errors_New ''Invalid push token'')
      else publishInternal_sdk_validate rest)"

definition publishInternal_sdk ::
  "ExponentPushToken stdlib \<Rightarrow> 'c PushClient_scheme \<Rightarrow> ExponentPushToken PushMessage list
     \<Rightarrow> (ExponentPushToken, ExponentPushToken PushResponse list) returned \<times> http_Request list" where
  "publishInternal_sdk lib c messages =
     (case publishInternal_sdk_validate messages of
        Some e \<Rightarrow> (Err e, [])
      | None \<Rightarrow>
      let target = host c @ apiURL c @ ''/push/send'' in
      case json_Marshal lib messages of
        Inl e \<Rightarrow> (Err (json_Error e), [])
      | Inr jsonBytes \<Rightarrow>
      case httpClient_Post lib (httpClient c) target ''application/json'' jsonBytes of
        (Inl e, sent) \<Rightarrow> (Err e, sent)
      | (Inr resp, sent) \<Rightarrow>
      case checkStatus resp of
        Some e \<Rightarrow> (Err e, sent)
      | None \<Rightarrow>
      case json_Decode lib (http_Response.Body resp) of
        Inl e \<Rightarrow> (Err (json_Error e), sent)
      | Inr None \<Rightarrow> (Panic nil_pointer_dereference, sent)
      | Inr (Some r) \<Rightarrow>
          if Errors r \<noteq> None then
            (Err (NewPushServerError ''Invalid server response'' resp r (Errors r)), sent)
          else case Response.Data r of
            None \<Rightarrow> (Err (NewPushServerError ''Invalid server response'' resp r None), sent)
          | Some data \<Rightarrow>
              if length messages \<noteq> length data then
                (Err (NewPushServerError (mismatched_length (length messages) (length data))
                        resp r None), sent)
              else (case attach_by_index [0..<length data] messages data of
                      None \<Rightarrow> (Panic index_out_of_range, sent)
                    | Some data' \<Rightarrow> (Ok data', sent)))"

definition PublishMultiple_sdk ::
  "ExponentPushToken stdlib \<Rightarrow> 'c PushClient_scheme \<Rightarrow> ExponentPushToken PushMessage list
     \<Rightarrow> (ExponentPushToken, ExponentPushToken PushResponse list) returned \<times> http_Request list" where
  "PublishMultiple_sdk lib c messages = publishInternal_sdk lib c messages"

definition Publish_sdk ::
  "ExponentPushToken stdlib \<Rightarrow> 'c PushClient_scheme \<Rightarrow> ExponentPushToken PushMessage
     \<Rightarrow> (ExponentPushToken, ExponentPushToken PushResponse) returned \<times> http_Request list" where
  "Publish_sdk lib c message =
     (case PublishMultiple_sdk lib c [message] of
        (Err e, sent) \<Rightarrow> (Err e, sent)
      | (Panic p, sent) \<Rightarrow> (Panic p, sent)
      | (Ok responses, sent) \<Rightarrow>
          (if 0 < length responses then Ok (responses ! 0) else Panic index_out_of_range, sent))"

section \<open>The loop of the first single-token client\<close>

text \<open>
  The oldest variant ends with \<open>for i, receipt := range r.Data { receipt.PushMessage =
  messages[i] }\<close>. There \<open>receipt\<close> is a copy of the element, so the assignment does not
  reach \<open>r.Data\<close>; the variants above index \<open>r.Data[i]\<close> instead.
\<close>

fun attach_to_copy ::
  "nat list \<Rightarrow> 'to PushMessage list \<Rightarrow> 'to PushResponse list \<Rightarrow> 'to PushResponse list option" where
  "attach_to_copy [] messages data = Some data"
| "attach_to_copy (i # rest) messages data =
     (if i < length data \<and> i < length messages
      then let receipt = (data ! i)\<lparr>PushMessage := messages ! i\<rparr>
           in attach_to_copy rest messages data
      else None)"

section \<open>Words of the specification\<close>

text \<open>
  The specification speaks of a batch passing validation, of the expected receipt count,
  of the flattening order and of kinds of errors that the code does not name. These
  definitions follow the specification's words; the theorems compare them with the code.
\<close>

definition batch_valid :: "tokens PushMessage list \<Rightarrow> bool" where
  "batch_valid messages \<longleftrightarrow> (\<forall>m \<in> set messages. To m \<noteq> [] \<and> (\<forall>t \<in> set (To m). t \<noteq> ''''))"

definition expected_receipt_count :: "tokens PushMessage list \<Rightarrow> nat" where
  "expected_receipt_count messages = sum_list (map (\<lambda>m. length (To m)) messages)"

definition is_ValidationError :: "'to error \<Rightarrow> bool" where
  "is_ValidationError e \<longleftrightarrow>
     e = errors_New ''No recipients'' \<or> e = errors_New ''Invalid push token''"

text \<open>
  The request that the multi-recipient client builds for a serialized batch, and what it
  means that the exchange with the gateway delivers the envelope \<open>r\<close> inside the response
  \<open>resp\<close>: the batch is serialized, the request is built and sent, the answer has a 2xx
  status and its body decodes to \<open>r\<close>.
\<close>

definition request_for :: "'c PushClient_token_scheme \<Rightarrow> string \<Rightarrow> http_Request" where
  "request_for c jsonBytes =
     \<lparr>Method = ''POST'', URL = host c @ apiURL c @ ''/push/send'',
      http_Request.Body = jsonBytes,
      Header = (''Content-Type'', ''application/json'')
                 # (if accessToken c \<noteq> '''' then [(''Authorization'', ''Bearer '' @ accessToken c)]
                    else [])\<rparr>"

definition exchange_delivers ::
  "tokens stdlib \<Rightarrow> 'c PushClient_token_scheme \<Rightarrow> tokens PushMessage list
     \<Rightarrow> http_Response \<Rightarrow> tokens Response \<Rightarrow> bool" where
  "exchange_delivers lib c messages resp r \<longleftrightarrow>
     (case json_Marshal lib messages of
        Inl e \<Rightarrow> False
      | Inr jsonBytes \<Rightarrow>
          url_Parse lib (host c @ apiURL c @ ''/push/send'') = None
          \<and> httpClient c (request_for c jsonBytes) = Inr resp
          \<and> 200 \<le> StatusCode resp \<and> StatusCode resp \<le> 299
          \<and> json_Decode lib (http_Response.Body resp) = Inr (Some r))"

text \<open>
  The flattening order: messages in submission order, recipients in the given order within
  a message. A receipt's back-reference is the owning message with its recipient list
  narrowed to the one token.
\<close>

definition flattening ::
  "tokens PushMessage list \<Rightarrow> (tokens PushMessage \<times> ExponentPushToken) list" where
  "flattening messages = concat (map (\<lambda>m. map (\<lambda>t. (m, t)) (To m)) messages)"

definition narrowed :: "tokens PushMessage \<times> ExponentPushToken \<Rightarrow> tokens PushMessage" where
  "narrowed mt = (fst mt)\<lparr>To := [snd mt]\<rparr>"

definition annotated ::
  "tokens PushResponse list \<Rightarrow> (tokens PushMessage \<times> ExponentPushToken) list
     \<Rightarrow> tokens PushResponse list" where
  "annotated data owners = map (\<lambda>(receipt, mt). receipt\<lparr>PushMessage := narrowed mt\<rparr>) (zip data owners)"

text \<open>
  The kinds of failure of the specification, read off the values the code returns. Both
  envelope failures are a \<open>PushServerError\<close> with the message \<open>Invalid server response\<close>;
  the request-level rejection is the one that carries the envelope's error entries, the
  malformed-response failure carries none (its \<open>Errors\<close> field is \<open>nil\<close>) or is the
  error of the JSON decoder.
\<close>

definition is_GatewayRequestError :: "'to error \<Rightarrow> bool" where
  "is_GatewayRequestError e \<longleftrightarrow>
     (case e of PushServerError message resp r (Some entries) \<Rightarrow> True | _ \<Rightarrow> False)"

definition is_MalformedResponseError :: "'to error \<Rightarrow> bool" where
  "is_MalformedResponseError e \<longleftrightarrow>
     (case e of
        json_Error text \<Rightarrow> True
      | PushServerError message resp r None \<Rightarrow> message = ''Invalid server response''
      | _ \<Rightarrow> False)"

definition request_level_errors :: "'to Response \<Rightarrow> (string \<rightharpoonup> string) list" where
  "request_level_errors r = (case Errors r of None \<Rightarrow> [] | Some entries \<Rightarrow> entries)"

text \<open>
  The status errors of the specification: an error made by \<open>checkStatus\<close> is an
  authentication failure when its text starts with \<open>invalid access token\<close> and the generic
  failure when it starts with \<open>invalid response\<close> (with either capital). A transport error
  is one that the HTTP client handed back.
\<close>

datatype status_failure = AuthenticationFailure | GenericFailure

definition GatewayStatusError :: "'to error \<Rightarrow> status_failure option" where
  "GatewayStatusError e =
     (case e of
        fmt_Errorf text \<Rightarrow>
          if prefix ''invalid access token'' text then Some AuthenticationFailure
          else if prefix ''invalid response'' text \<or> prefix ''Invalid response'' text
          then Some GenericFailure
          else None
      | _ \<Rightarrow> None)"

definition is_TransportError :: "'to error \<Rightarrow> bool" where
  "is_TransportError e \<longleftrightarrow> (case e of net_Error text \<Rightarrow> True | _ \<Rightarrow> False)"

definition request_for_url :: "'c PushClient_url_scheme \<Rightarrow> string \<Rightarrow> http_Request" where
  "request_for_url c jsonBytes =
     \<lparr>Method = ''POST'',
      URL = (if url c \<noteq> '''' then url c else host c @ apiURL c @ ''/push/send''),
      http_Request.Body = jsonBytes,
      Header = (''Content-Type'', ''application/json'')
                 # (if accessToken c \<noteq> '''' then [(''Authorization'', ''Bearer '' @ accessToken c)]
                    else [])\<rparr>"

definition response_arrives ::
  "tokens stdlib \<Rightarrow> 'c PushClient_url_scheme \<Rightarrow> tokens PushMessage list
     \<Rightarrow> http_Response \<Rightarrow> bool" where
  "response_arrives lib c messages resp \<longleftrightarrow>
     publishInternal_url_validate messages = None
     \<and> (case json_Marshal lib messages of
          Inl e \<Rightarrow> False
        | Inr jsonBytes \<Rightarrow>
            url_Parse lib (URL (request_for_url c jsonBytes)) = None
            \<and> httpClient c (request_for_url c jsonBytes) = Inr resp)"

text \<open>
  For the multi-recipient client: the batch passes validation, is serialized and sent, and
  the HTTP client answers with \<open>resp\<close>, whatever its status.
\<close>

definition answer_arrives ::
  "tokens stdlib \<Rightarrow> 'c PushClient_token_scheme \<Rightarrow> tokens PushMessage list
     \<Rightarrow> http_Response \<Rightarrow> bool" where
  "answer_arrives lib c messages resp \<longleftrightarrow>
     batch_valid messages
     \<and> (case json_Marshal lib messages of
          Inl e \<Rightarrow> False
        | Inr jsonBytes \<Rightarrow>
            url_Parse lib (host c @ apiURL c @ ''/push/send'') = None
            \<and> httpClient c (request_for c jsonBytes) = Inr resp)"

text \<open>
  What the caller owns is what was in the store before the call, under the references
  below \<open>next_ref\<close>. A batch is allocated when its array of messages and the arrays of
  tokens of its messages are among them.
\<close>

definition unchanged_below :: "ref \<Rightarrow> store \<Rightarrow> store \<Rightarrow> bool" where
  "unchanged_below n s s' \<longleftrightarrow>
     (\<forall>p < n. token_arrays s' p = token_arrays s p
             \<and> message_arrays s' p = message_arrays s p
             \<and> receipt_arrays s' p = receipt_arrays s p)"

definition slice_allocated :: "store \<Rightarrow> slice \<Rightarrow> bool" where
  "slice_allocated s sl \<longleftrightarrow> (case sl of None \<Rightarrow> True | Some p \<Rightarrow> p < next_ref s)"

definition batch_allocated :: "store \<Rightarrow> slice \<Rightarrow> bool" where
  "batch_allocated s messages \<longleftrightarrow>
     slice_allocated s messages
     \<and> (\<forall>m \<in> set (messages_at s messages). slice_allocated s (To m))"

text \<open>
  For comparing the walk over the store with the walk over values: the receipts of an
  array hold only slices made since the call began (at or above \<open>n\<close>) and allocated; a
  later store extends an earlier one (it may have new arrays of tokens, but the old ones
  and the arrays of messages are as they were); one round of the inner loop, with its two
  writes and its allocation, as one update of the store; and an outcome read back from
  the store.
\<close>

definition receipts_fresh :: "ref \<Rightarrow> store \<Rightarrow> ref \<Rightarrow> bool" where
  "receipts_fresh n s d \<longleftrightarrow>
     (\<forall>r \<in> set (receipt_arrays s d).
        case To (PushMessage r) of None \<Rightarrow> True | Some p \<Rightarrow> n \<le> p \<and> p < next_ref s)"

definition extends :: "store \<Rightarrow> store \<Rightarrow> bool" where
  "extends s s' \<longleftrightarrow>
     next_ref s \<le> next_ref s'
     \<and> (\<forall>p < next_ref s. token_arrays s' p = token_arrays s p)
     \<and> message_arrays s' = message_arrays s"

definition round_store ::
  "slice PushMessage \<Rightarrow> ExponentPushToken \<Rightarrow> nat \<Rightarrow> ref \<Rightarrow> store \<Rightarrow> store" where
  "round_store msg t i d s =
     s\<lparr>token_arrays := (token_arrays s)(next_ref s := [t]),
       receipt_arrays := (receipt_arrays s)
          (d := (receipt_arrays s d)[i := (receipt_arrays s d ! i)
                   \<lparr>PushMessage := msg\<lparr>To := Some (next_ref s)\<rparr>\<rparr>]),
       next_ref := Suc (next_ref s)\<rparr>"

definition load_outcome ::
  "store \<Rightarrow> (tokens, ref) returned \<Rightarrow> (tokens, tokens PushResponse list) returned" where
  "load_outcome s outcome =
     (case outcome of
        Ok d \<Rightarrow> Ok (map (load_receipt s) (receipt_arrays s d))
      | Err e \<Rightarrow> Err e
      | Panic p \<Rightarrow> Panic p)"

section \<open>Sample values\<close>

definition message_to :: "'to \<Rightarrow> string \<Rightarrow> 'to PushMessage" where
  "message_to recipients text =
     \<lparr>To = recipients, PushMessage.Body = text, PushMessage.Data = None, Sound = ''default'',
      Title = '''', TTLSeconds = 0, Expiration = 0, Priority = ''default'', Badge = 0,
      ChannelID = ''''\<rparr>"

definition receipt_of :: "'to \<Rightarrow> string \<Rightarrow> 'to PushResponse" where
  "receipt_of zero status =
     \<lparr>PushMessage = message_to zero '''', PushResponse.Status = status, Message = '''',
      Details = None\<rparr>"

definition response_200 :: http_Response where
  "response_200 = \<lparr>StatusCode = 200, http_Response.Status = ''200 OK'', http_Response.Body = ''{}''\<rparr>"

definition lib_decoding :: "'to Response option \<Rightarrow> 'to stdlib" where
  "lib_decoding r =
     \<lparr>json_Marshal = (\<lambda>messages. Inr ''[]''), json_Decode = (\<lambda>body. Inr r),
      url_Parse = (\<lambda>u. None)\<rparr>"

definition client_receiving :: "http_Response \<Rightarrow> PushClient_token" where
  "client_receiving resp =
     \<lparr>host = ''https://exp.host'', apiURL = ''/--/api/v2'', httpClient = (\<lambda>req. Inr resp),
      accessToken = ''''\<rparr>"

definition batch_2_1 :: "tokens PushMessage list" where
  "batch_2_1 = [message_to [''ExponentPushToken[a]'', ''ExponentPushToken[b]''] ''first'',
                message_to [''ExponentPushToken[c]''] ''second'']"

definition envelope_of :: "'to PushResponse list \<Rightarrow> 'to Response" where
  "envelope_of receipts = \<lparr>Response.Data = Some receipts, Errors = None\<rparr>"

definition three_receipts :: "tokens PushResponse list" where
  "three_receipts = [receipt_of [] ''ok'', receipt_of [] ''error'', receipt_of [] ''ok'']"

definition two_receipts :: "tokens PushResponse list" where
  "two_receipts = [receipt_of [] ''ok'', receipt_of [] ''ok'']"

definition envelope_empty_errors :: "tokens Response" where
  "envelope_empty_errors = \<lparr>Response.Data = Some three_receipts, Errors = Some []\<rparr>"


definition envelope_blank :: "tokens Response" where
  "envelope_blank = \<lparr>Response.Data = None, Errors = None\<rparr>"

definition response_with :: "int \<Rightarrow> string \<Rightarrow> http_Response" where
  "response_with code status =
     \<lparr>StatusCode = code, http_Response.Status = status, http_Response.Body = ''not json''\<rparr>"

definition lib_failing_decode :: "'to stdlib" where
  "lib_failing_decode =
     \<lparr>json_Marshal = (\<lambda>messages. Inr ''[]''),
      json_Decode = (\<lambda>body. Inl ''invalid character'' ),
      url_Parse = (\<lambda>u. None)\<rparr>"

definition client_url_receiving :: "http_Response \<Rightarrow> PushClient_url" where
  "client_url_receiving resp =
     \<lparr>host = ''https://exp.host'', apiURL = ''/--/api/v2'', httpClient = (\<lambda>req. Inr resp),
      accessToken = ''secret'', url = ''''\<rparr>"

definition client_sdk_receiving :: "http_Response \<Rightarrow> PushClient" where
  "client_sdk_receiving resp =
     \<lparr>host = ''https://exp.host'', apiURL = ''/--/api/v2'', httpClient = (\<lambda>req. Inr resp)\<rparr>"

definition envelope_empty_errors_only :: "tokens Response" where
  "envelope_empty_errors_only = \<lparr>Response.Data = None, Errors = Some []\<rparr>"

definition sample_store :: store where
  "sample_store =
     \<lparr>token_arrays = (\<lambda>p. [])(0 := [''ExponentPushToken[a]'', ''ExponentPushToken[b]''],
                                1 := [''ExponentPushToken[c]'']),
      message_arrays = (\<lambda>p. [])(2 := [message_to (Some 0) ''first'', message_to (Some 1) ''second'']),
      receipt_arrays = (\<lambda>p. []),
      next_ref = 3\<rparr>"

section \<open>Token construction\<close>

text \<open>
  Claim C7. For every input string, \<open>NewExponentPushToken\<close> returns the string itself as a
  token exactly when the string starts with \<open>ExponentPushToken\<close>, and returns the
  malformed-token error otherwise; \<open>ExponentPushToken[abc]\<close> is accepted and \<open>abc\<close> is
  refused.
\<close>

theorem NewExponentPushToken_prefix:
  "(NewExponentPushToken token = (Ok token :: ('to, ExponentPushToken) returned)
      \<longleftrightarrow> (\<exists>rest. token = ''ExponentPushToken'' @ rest))
   \<and> (NewExponentPushToken token = (Err ErrMalformedToken :: ('to, ExponentPushToken) returned)
      \<longleftrightarrow> \<not> (\<exists>rest. token = ''ExponentPushToken'' @ rest))
   \<and> NewExponentPushToken ''ExponentPushToken[abc]''
        = (Ok ''ExponentPushToken[abc]'' :: ('to, ExponentPushToken) returned)
   \<and> NewExponentPushToken ''abc'' = (Err ErrMalformedToken :: ('to, ExponentPushToken) returned)"
  by (simp add: NewExponentPushToken_def strings_HasPrefix_def prefix_def)

theorem NewExponentPushToken_prefix_witness:
  "NewExponentPushToken ''ExponentPushToken[xyz]''
     = (Ok ''ExponentPushToken[xyz]'' :: (unit, ExponentPushToken) returned)
   \<and> NewExponentPushToken ''Exponent''
     = (Err ErrMalformedToken :: (unit, ExponentPushToken) returned)"
  using NewExponentPushToken_prefix [where ?'to = unit, of "''ExponentPushToken[xyz]''"]
        NewExponentPushToken_prefix [where ?'to = unit, of "''Exponent''"]
  by simp

section \<open>Request validation\<close>

lemma validate_recipients_None:
  "validate_recipients ts = None \<longleftrightarrow> (\<forall>t \<in> set ts. t \<noteq> '''')"
  by (induction ts) auto

lemma validate_recipients_Some:
  "validate_recipients ts = Some e \<Longrightarrow> e = errors_New ''Invalid push token''"
  by (induction ts) (auto split: if_splits)

lemma validate_valid:
  "batch_valid messages \<Longrightarrow>
     publishInternal_validate messages n = Inr (n + expected_receipt_count messages)"
proof (induction messages arbitrary: n)
  case Nil
  then show ?case by (simp add: expected_receipt_count_def)
next
  case (Cons m ms)
  from Cons.prems have m: "To m \<noteq> []" "validate_recipients (To m) = None" and ms: "batch_valid ms"
    by (simp_all add: batch_valid_def validate_recipients_None)
  show ?case
    using m Cons.IH [OF ms] by (simp add: expected_receipt_count_def)
qed

lemma validate_invalid:
  "\<not> batch_valid messages \<Longrightarrow>
     \<exists>e. is_ValidationError e \<and> publishInternal_validate messages n = Inl e"
proof (induction messages arbitrary: n)
  case Nil
  then show ?case by (simp add: batch_valid_def)
next
  case (Cons m ms)
  show ?case
  proof (cases "To m = []")
    case True
    then show ?thesis by (simp add: is_ValidationError_def)
  next
    case nonempty: False
    show ?thesis
    proof (cases "validate_recipients (To m)")
      case (Some e)
      then show ?thesis
        using nonempty validate_recipients_Some [OF Some] by (simp add: is_ValidationError_def)
    next
      case None
      with nonempty Cons.prems have "\<not> batch_valid ms"
        by (auto simp add: batch_valid_def validate_recipients_None)
      from Cons.IH [OF this] show ?thesis
        using nonempty None by simp
    qed
  qed
qed

text \<open>
  Claim C3. Validation succeeds exactly when every message of the batch has at least one
  recipient and every recipient token is a non-empty string. In that case the validation
  loop yields the expected receipt count, the sum of the recipient counts, and
  \<open>PublishMultiple\<close> goes on to serialize and send with that count. Otherwise
  \<open>PublishMultiple\<close> returns one of the two validation errors, whatever the library
  functions and the client are, and has handed no request to the HTTP client.
\<close>

theorem validation_exact:
  "(batch_valid messages \<longrightarrow>
      publishInternal_validate messages 0 = Inr (expected_receipt_count messages)
      \<and> PublishMultiple lib c messages
          = publishInternal_send lib c messages (expected_receipt_count messages))
   \<and> (\<not> batch_valid messages \<longrightarrow>
      (\<exists>e. is_ValidationError e \<and> publishInternal_validate messages 0 = Inl e
           \<and> PublishMultiple lib c messages = (Err e, [])))"
proof (cases "batch_valid messages")
  case True
  from validate_valid [OF True, of 0] show ?thesis
    using True by (simp add: PublishMultiple_def publishInternal_def)
next
  case False
  from validate_invalid [OF False, of 0] show ?thesis
    using False by (auto simp add: PublishMultiple_def publishInternal_def)
qed

lemma batch_2_1_valid: "batch_valid batch_2_1"
  by (simp add: batch_valid_def batch_2_1_def message_to_def)

theorem validation_exact_witness:
  "batch_valid batch_2_1
   \<and> publishInternal_validate batch_2_1 0 = Inr 3
   \<and> \<not> batch_valid [message_to [''ExponentPushToken[a]'', ''''] ''x'']
   \<and> PublishMultiple (lib_decoding None) (client_receiving response_200)
        [message_to [''ExponentPushToken[a]'', ''''] ''x'']
       = (Err (errors_New ''Invalid push token''), [])
   \<and> \<not> batch_valid [message_to [] ''x'']
   \<and> PublishMultiple (lib_decoding None) (client_receiving response_200) [message_to [] ''x'']
       = (Err (errors_New ''No recipients''), [])"
  using validation_exact [of batch_2_1 "lib_decoding None" "client_receiving response_200"]
    validation_exact [of "[message_to [''ExponentPushToken[a]'', ''''] ''x'']"
      "lib_decoding None" "client_receiving response_200"]
    validation_exact [of "[message_to [] ''x'']"
      "lib_decoding None" "client_receiving response_200"]
  by (auto simp add: batch_valid_def batch_2_1_def message_to_def expected_receipt_count_def
      is_ValidationError_def)

section \<open>Attaching the messages to the receipts\<close>

lemma length_annotated: "length (annotated data owners) = min (length data) (length owners)"
  by (simp add: annotated_def)

lemma annotated_append:
  "length d1 = length o1 \<Longrightarrow>
     annotated (d1 @ d2) (o1 @ o2) = annotated d1 o1 @ annotated d2 o2"
  by (simp add: annotated_def)

lemma length_flattening: "length (flattening messages) = expected_receipt_count messages"
  by (induction messages) (simp_all add: flattening_def expected_receipt_count_def)

lemma attach_recipients_append:
  "length mid = length ts \<Longrightarrow>
     attach_recipients msg ts (length pre) (pre @ mid @ post)
       = Some (length pre + length ts, pre @ annotated mid (map (\<lambda>t. (msg, t)) ts) @ post)"
proof (induction ts arbitrary: pre mid)
  case Nil
  then show ?case by (simp add: annotated_def)
next
  case (Cons t ts)
  then obtain r mid' where mid: "mid = r # mid'" and len: "length mid' = length ts"
    by (cases mid) auto
  let ?r' = "r\<lparr>PushMessage := msg\<lparr>To := [t]\<rparr>\<rparr>"
  have step: "attach_recipients msg (t # ts) (length pre) (pre @ mid @ post)
                = attach_recipients msg ts (length (pre @ [?r'])) ((pre @ [?r']) @ mid' @ post)"
    by (simp add: mid Let_def)
  show ?case
    unfolding step Cons.IH [OF len]
    by (simp add: mid annotated_def narrowed_def)
qed

lemma attach_messages_append:
  "length mid = expected_receipt_count messages \<Longrightarrow>
     attach_messages messages (length pre) (pre @ mid @ post)
       = Some (length pre + length mid, pre @ annotated mid (flattening messages) @ post)"
proof (induction messages arbitrary: pre mid)
  case Nil
  then show ?case by (simp add: expected_receipt_count_def flattening_def annotated_def)
next
  case (Cons m ms)
  let ?k = "length (To m)"
  let ?m1 = "take ?k mid" and ?m2 = "drop ?k mid"
  let ?own = "map (\<lambda>t. (m, t)) (To m)"
  from Cons.prems have l1: "length ?m1 = length (To m)"
    and l2: "length ?m2 = expected_receipt_count ms"
    by (simp_all add: expected_receipt_count_def)
  have inner: "attach_recipients m (To m) (length pre) (pre @ mid @ post)
                 = Some (length pre + ?k, pre @ annotated ?m1 ?own @ ?m2 @ post)"
  proof -
    have decomp: "pre @ mid @ post = pre @ ?m1 @ (?m2 @ post)"
      by (metis append_assoc append_take_drop_id)
    show ?thesis
      unfolding decomp using attach_recipients_append [OF l1, of m pre "?m2 @ post"] .
  qed
  have lp: "length (pre @ annotated ?m1 ?own) = length pre + ?k"
    using l1 by (simp add: length_annotated)
  have outer: "attach_messages ms (length pre + ?k) ((pre @ annotated ?m1 ?own) @ ?m2 @ post)
                 = Some (length pre + ?k + length ?m2,
                         (pre @ annotated ?m1 ?own) @ annotated ?m2 (flattening ms) @ post)"
    using Cons.IH [OF l2, of "pre @ annotated ?m1 ?own"] unfolding lp .
  have split: "annotated mid (flattening (m # ms))
                 = annotated ?m1 ?own @ annotated ?m2 (flattening ms)"
    using annotated_append [of ?m1 ?own ?m2 "flattening ms"] l1
    by (simp add: flattening_def)
  have total: "length pre + ?k + length ?m2 = length pre + length mid"
    using Cons.prems by (simp add: expected_receipt_count_def)
  show ?case
    using inner outer split total by simp
qed

lemma attach_messages_all:
  "length data = expected_receipt_count messages \<Longrightarrow>
     attach_messages messages 0 data = Some (length data, annotated data (flattening messages))"
  using attach_messages_append [of data messages "[]" "[]"] by simp

lemma nth_annotated:
  "i < length data \<Longrightarrow> i < length owners \<Longrightarrow>
     annotated data owners ! i
       = (data ! i)\<lparr>PushMessage := (fst (owners ! i))\<lparr>To := [snd (owners ! i)]\<rparr>\<rparr>"
  by (simp add: annotated_def narrowed_def)

lemma publish_delivered:
  assumes "batch_valid messages" and "exchange_delivers lib c messages resp r"
  shows "\<exists>jsonBytes. json_Marshal lib messages = Inr jsonBytes
           \<and> PublishMultiple lib c messages
               = (publishInternal_reconcile resp r messages (expected_receipt_count messages),
                  [request_for c jsonBytes])"
proof -
  from assms(2) obtain jsonBytes where m: "json_Marshal lib messages = Inr jsonBytes"
    and u: "url_Parse lib (host c @ apiURL c @ ''/push/send'') = None"
    and d: "httpClient c (request_for c jsonBytes) = Inr resp"
    and s: "200 \<le> StatusCode resp" "StatusCode resp \<le> 299"
    and j: "json_Decode lib (http_Response.Body resp) = Inr (Some r)"
    by (auto simp add: exchange_delivers_def split: sum.splits)
  have req: "(if accessToken c \<noteq> ''''
              then Header_Add (Header_Add \<lparr>Method = ''POST'', URL = host c @ apiURL c @ ''/push/send'',
                     http_Request.Body = jsonBytes, Header = []\<rparr> ''Content-Type'' ''application/json'')
                     ''Authorization'' (''Bearer '' @ accessToken c)
              else Header_Add \<lparr>Method = ''POST'', URL = host c @ apiURL c @ ''/push/send'',
                     http_Request.Body = jsonBytes, Header = []\<rparr> ''Content-Type'' ''application/json'')
             = request_for c jsonBytes"
    by (simp add: Header_Add_def request_for_def)
  have "publishInternal_send lib c messages (expected_receipt_count messages)
          = (publishInternal_reconcile resp r messages (expected_receipt_count messages),
             [request_for c jsonBytes])"
    unfolding publishInternal_send_def Let_def http_NewRequest_def
    by (simp only: m u req d j sum.case option.case) (simp add: checkStatus_def s)
  with validate_valid [OF assms(1), of 0] m show ?thesis
    by (simp add: PublishMultiple_def publishInternal_def)
qed

text \<open>
  Claim C1, as the code has it. In the multi-recipient client, when the batch passes
  validation and the exchange delivers, with a 2xx status, an envelope that has no
  \<open>errors\<close> field and whose data array has as many receipts as the batch has recipients,
  \<open>PublishMultiple\<close> returns the receipts in their positions, receipt \<open>i\<close> unchanged but
  for its back-reference, which is the message owning the \<open>i\<close>-th recipient of the
  flattening order with its recipient list narrowed to that one token. For two messages
  with recipients \<open>[a, b]\<close> and \<open>[t]\<close> and three receipts, receipts 0 and 1 refer to the
  first message narrowed to \<open>a\<close> and to \<open>b\<close>, receipt 2 to the second narrowed to \<open>t\<close>.
\<close>

theorem receipts_reference_owners:
  assumes "batch_valid messages"
    and "exchange_delivers lib c messages resp r"
    and "Errors r = None"
    and "Response.Data r = Some data"
    and "length data = expected_receipt_count messages"
  shows "fst (PublishMultiple lib c messages) = Ok (annotated data (flattening messages))
    \<and> length (annotated data (flattening messages)) = length data
    \<and> (\<forall>i < length data.
          annotated data (flattening messages) ! i
            = (data ! i)\<lparr>PushMessage :=
                 (fst (flattening messages ! i))\<lparr>To := [snd (flattening messages ! i)]\<rparr>\<rparr>)
    \<and> (\<forall>m0 m1 a b t d0 d1 d2.
          messages = [m0, m1] \<and> To m0 = [a, b] \<and> To m1 = [t] \<and> data = [d0, d1, d2] \<longrightarrow>
          fst (PublishMultiple lib c messages)
            = Ok [d0\<lparr>PushMessage := m0\<lparr>To := [a]\<rparr>\<rparr>, d1\<lparr>PushMessage := m0\<lparr>To := [b]\<rparr>\<rparr>,
                  d2\<lparr>PushMessage := m1\<lparr>To := [t]\<rparr>\<rparr>])"
proof -
  from publish_delivered [OF assms(1,2)]
  have pub: "fst (PublishMultiple lib c messages)
               = publishInternal_reconcile resp r messages (expected_receipt_count messages)"
    by auto
  have rec: "publishInternal_reconcile resp r messages (expected_receipt_count messages)
               = Ok (annotated data (flattening messages))"
    using assms(3,4,5) attach_messages_all [OF assms(5)]
    by (simp add: publishInternal_reconcile_def)
  have len: "length (annotated data (flattening messages)) = length data"
    using assms(5) by (simp add: length_annotated length_flattening)
  have nth: "\<forall>i < length data.
          annotated data (flattening messages) ! i
            = (data ! i)\<lparr>PushMessage :=
                 (fst (flattening messages ! i))\<lparr>To := [snd (flattening messages ! i)]\<rparr>\<rparr>"
    using assms(5) by (simp add: nth_annotated length_flattening)
  have two_one: "\<forall>m0 m1 a b t d0 d1 d2.
          messages = [m0, m1] \<and> To m0 = [a, b] \<and> To m1 = [t] \<and> data = [d0, d1, d2] \<longrightarrow>
          annotated data (flattening messages)
            = [d0\<lparr>PushMessage := m0\<lparr>To := [a]\<rparr>\<rparr>, d1\<lparr>PushMessage := m0\<lparr>To := [b]\<rparr>\<rparr>,
               d2\<lparr>PushMessage := m1\<lparr>To := [t]\<rparr>\<rparr>]"
    by (simp add: annotated_def flattening_def narrowed_def)
  show ?thesis
    unfolding pub rec returned.inject using len nth two_one by blast
qed

lemma batch_2_1_count: "expected_receipt_count batch_2_1 = 3"
  by (simp add: expected_receipt_count_def batch_2_1_def message_to_def)

lemma sample_exchange:
  "exchange_delivers (lib_decoding (Some r)) (client_receiving response_200) messages
     response_200 r"
  by (simp add: exchange_delivers_def lib_decoding_def client_receiving_def response_200_def)

theorem receipts_reference_owners_witness:
  "batch_valid batch_2_1
   \<and> exchange_delivers (lib_decoding (Some (envelope_of three_receipts)))
        (client_receiving response_200) batch_2_1 response_200 (envelope_of three_receipts)
   \<and> Errors (envelope_of three_receipts) = None
   \<and> Response.Data (envelope_of three_receipts) = Some three_receipts
   \<and> length three_receipts = expected_receipt_count batch_2_1
   \<and> fst (PublishMultiple (lib_decoding (Some (envelope_of three_receipts)))
             (client_receiving response_200) batch_2_1)
       = Ok [(receipt_of [] ''ok'')\<lparr>PushMessage := message_to [''ExponentPushToken[a]''] ''first''\<rparr>,
             (receipt_of [] ''error'')\<lparr>PushMessage := message_to [''ExponentPushToken[b]''] ''first''\<rparr>,
             (receipt_of [] ''ok'')\<lparr>PushMessage := message_to [''ExponentPushToken[c]''] ''second''\<rparr>]"
proof -
  have h3: "Errors (envelope_of three_receipts) = None"
    and h4: "Response.Data (envelope_of three_receipts) = Some three_receipts"
    by (simp_all add: envelope_of_def)
  have h5: "length three_receipts = expected_receipt_count batch_2_1"
    by (simp add: batch_2_1_count three_receipts_def)
  from receipts_reference_owners [OF batch_2_1_valid sample_exchange h3 h4 h5]
  have "fst (PublishMultiple (lib_decoding (Some (envelope_of three_receipts)))
             (client_receiving response_200) batch_2_1)
          = Ok (annotated three_receipts (flattening batch_2_1))"
    by blast
  moreover have "annotated three_receipts (flattening batch_2_1)
    = [(receipt_of [] ''ok'')\<lparr>PushMessage := message_to [''ExponentPushToken[a]''] ''first''\<rparr>,
       (receipt_of [] ''error'')\<lparr>PushMessage := message_to [''ExponentPushToken[b]''] ''first''\<rparr>,
       (receipt_of [] ''ok'')\<lparr>PushMessage := message_to [''ExponentPushToken[c]''] ''second''\<rparr>]"
    by (simp add: annotated_def flattening_def narrowed_def three_receipts_def batch_2_1_def
        message_to_def)
  ultimately show ?thesis
    using batch_2_1_valid sample_exchange h3 h4 h5 by simp
qed

text \<open>
  Claim C1 as stated asks only for recipients in every message and for a response with as
  many receipts as recipients. The batch of recipient counts 2 and 1 with the envelope
  \<open>{"errors": [], "data": [...]}\<close> of three receipts meets both, and \<open>PublishMultiple\<close>
  returns no receipts but the request-level rejection.
\<close>

theorem receipts_withheld_by_empty_errors:
  "batch_valid batch_2_1
   \<and> exchange_delivers (lib_decoding (Some envelope_empty_errors))
        (client_receiving response_200) batch_2_1 response_200 envelope_empty_errors
   \<and> Response.Data envelope_empty_errors = Some three_receipts
   \<and> length three_receipts = expected_receipt_count batch_2_1
   \<and> request_level_errors envelope_empty_errors = []
   \<and> fst (PublishMultiple (lib_decoding (Some envelope_empty_errors))
             (client_receiving response_200) batch_2_1)
       = Err (PushServerError ''Invalid server response'' response_200 envelope_empty_errors
                (Some []))
   \<and> fst (PublishMultiple (lib_decoding (Some envelope_empty_errors))
             (client_receiving response_200) batch_2_1)
       \<noteq> Ok (annotated three_receipts (flattening batch_2_1))"
proof -
  from publish_delivered [OF batch_2_1_valid sample_exchange, of envelope_empty_errors]
  have "fst (PublishMultiple (lib_decoding (Some envelope_empty_errors))
             (client_receiving response_200) batch_2_1)
       = Err (PushServerError ''Invalid server response'' response_200 envelope_empty_errors
                (Some []))"
    by (auto simp add: publishInternal_reconcile_def NewPushServerError_def
        envelope_empty_errors_def)
  then show ?thesis
    using batch_2_1_valid sample_exchange [of envelope_empty_errors batch_2_1]
    by (simp add: envelope_empty_errors_def batch_2_1_count three_receipts_def
        request_level_errors_def)
qed

text \<open>
  The loop of the oldest single-token variant, in contrast, returns the receipts as the
  decoder left them.
\<close>

lemma attach_to_copy_nothing:
  "\<forall>i \<in> set indices. i < length data \<and> i < length messages \<Longrightarrow>
     attach_to_copy indices messages data = Some data"
  by (induction indices) simp_all

section \<open>The receipt count check\<close>

text \<open>
  Whenever the number of receipts differs from the expected receipt count, the call fails
  with the mismatched-length error; its text is made from the number of messages and the
  number of receipts.
\<close>

lemma mismatch_in_general:
  assumes "batch_valid messages"
    and "exchange_delivers lib c messages resp r"
    and "Errors r = None"
    and "Response.Data r = Some data"
    and "length data \<noteq> expected_receipt_count messages"
  shows "fst (PublishMultiple lib c messages)
           = Err (PushServerError (mismatched_length (length messages) (length data)) resp r None)"
  using publish_delivered [OF assms(1,2)] assms(3,4,5)
  by (auto simp add: publishInternal_reconcile_def NewPushServerError_def)

lemma show_int_2: "show_int 2 = ''2''"
  by (simp add: show_int_def show_nat.simps digit_def)

text \<open>
  Claim C2. For the batch of two messages with recipient counts 2 and 1 and an envelope of
  two receipts, \<open>PublishMultiple\<close> fails with the mismatched-length error, but the text
  of the error names the number of messages, 2, as the expected count, where the expected
  receipt count is 3: it reads "Expected 2 receipts but only received 2".
\<close>

theorem mismatch_reports_message_count:
  "fst (PublishMultiple (lib_decoding (Some (envelope_of two_receipts)))
          (client_receiving response_200) batch_2_1)
     = Err (PushServerError
              ''Mismatched response length. Expected 2 receipts but only received 2''
              response_200 (envelope_of two_receipts) None)
   \<and> expected_receipt_count batch_2_1 = 3 \<and> length two_receipts = 2"
proof -
  have h3: "Errors (envelope_of two_receipts) = None"
    and h4: "Response.Data (envelope_of two_receipts) = Some two_receipts"
    by (simp_all add: envelope_of_def)
  have h5: "length two_receipts \<noteq> expected_receipt_count batch_2_1"
    by (simp add: batch_2_1_count two_receipts_def)
  from mismatch_in_general [OF batch_2_1_valid sample_exchange h3 h4 h5]
  show ?thesis
    by (simp add: envelope_of_def mismatched_length_def show_int_2 batch_2_1_def
        two_receipts_def batch_2_1_count [unfolded batch_2_1_def])
qed

section \<open>Request-level errors\<close>




section \<open>Envelopes without data\<close>

text \<open>
  Claim C5, as the code has it. For a batch that passes validation and a delivered envelope
  without a \<open>data\<close> field: when its \<open>errors\<close> field is absent too (\<open>nil\<close> after decoding),
  \<open>PublishMultiple\<close> fails with the malformed-response error, and not with the
  mismatched-length error, whatever count was expected (the check comes before the receipt
  count check); when the \<open>errors\<close> field is present, be the list empty or not, the failure
  is the request-level rejection instead (the check comes after the errors check).
\<close>

theorem blank_envelope_is_malformed:
  assumes "batch_valid messages"
    and "exchange_delivers lib c messages resp r"
    and "Response.Data r = None"
  shows "(Errors r = None \<longrightarrow>
            fst (PublishMultiple lib c messages)
              = Err (PushServerError ''Invalid server response'' resp r None)
            \<and> is_MalformedResponseError (PushServerError ''Invalid server response'' resp r None)
            \<and> (\<forall>a b. fst (PublishMultiple lib c messages)
                        \<noteq> Err (PushServerError (mismatched_length a b) resp r None)))
    \<and> (Errors r \<noteq> None \<longrightarrow>
            fst (PublishMultiple lib c messages)
              = Err (PushServerError ''Invalid server response'' resp r (Errors r))
            \<and> \<not> is_MalformedResponseError
                  (PushServerError ''Invalid server response'' resp r (Errors r)))"
proof -
  from publish_delivered [OF assms(1,2)]
  have pub: "fst (PublishMultiple lib c messages)
               = publishInternal_reconcile resp r messages (expected_receipt_count messages)"
    by auto
  show ?thesis
    unfolding pub using assms(3)
    by (auto simp add: publishInternal_reconcile_def NewPushServerError_def
        is_MalformedResponseError_def mismatched_length_def)
qed

theorem blank_envelope_is_malformed_witness:
  "batch_valid batch_2_1
   \<and> exchange_delivers (lib_decoding (Some envelope_blank))
        (client_receiving response_200) batch_2_1 response_200 envelope_blank
   \<and> Response.Data envelope_blank = None \<and> Errors envelope_blank = None
   \<and> fst (PublishMultiple (lib_decoding (Some envelope_blank))
             (client_receiving response_200) batch_2_1)
       = Err (PushServerError ''Invalid server response'' response_200 envelope_blank None)"
  using blank_envelope_is_malformed [OF batch_2_1_valid sample_exchange, of envelope_blank]
    batch_2_1_valid sample_exchange [of envelope_blank batch_2_1]
  by (simp add: envelope_blank_def)

text \<open>
  Claim C5 as stated speaks of an envelope with no request-level errors and no data. The
  envelope \<open>{"errors": []}\<close> has neither, and the failure is the one of the errors branch,
  not the malformed-response error.
\<close>

theorem empty_errors_without_data_not_malformed:
  "batch_valid batch_2_1
   \<and> exchange_delivers (lib_decoding (Some envelope_empty_errors_only))
        (client_receiving response_200) batch_2_1 response_200 envelope_empty_errors_only
   \<and> request_level_errors envelope_empty_errors_only = []
   \<and> Response.Data envelope_empty_errors_only = None
   \<and> fst (PublishMultiple (lib_decoding (Some envelope_empty_errors_only))
             (client_receiving response_200) batch_2_1)
       = Err (PushServerError ''Invalid server response'' response_200
                envelope_empty_errors_only (Some []))
   \<and> \<not> is_MalformedResponseError
         (PushServerError ''Invalid server response'' response_200
            envelope_empty_errors_only (Some []))
   \<and> is_GatewayRequestError
         (PushServerError ''Invalid server response'' response_200
            envelope_empty_errors_only (Some []))"
proof -
  from publish_delivered [OF batch_2_1_valid sample_exchange, of envelope_empty_errors_only]
  have "fst (PublishMultiple (lib_decoding (Some envelope_empty_errors_only))
             (client_receiving response_200) batch_2_1)
       = Err (PushServerError ''Invalid server response'' response_200
                envelope_empty_errors_only (Some []))"
    by (auto simp add: publishInternal_reconcile_def NewPushServerError_def
        envelope_empty_errors_only_def)
  then show ?thesis
    using batch_2_1_valid sample_exchange [of envelope_empty_errors_only batch_2_1]
    by (simp add: envelope_empty_errors_only_def request_level_errors_def
        is_MalformedResponseError_def is_GatewayRequestError_def)
qed

section \<open>The empty batch\<close>

text \<open>
  Claim C8. The empty batch passes validation with an expected receipt count of 0, and
  \<open>PublishMultiple\<close> goes on to serialize it and to hand the request to the HTTP client
  (provided the serialization and the construction of the request succeed).
\<close>

theorem empty_batch_is_sent:
  assumes "json_Marshal lib [] = Inr jsonBytes"
    and "url_Parse lib (host c @ apiURL c @ ''/push/send'') = None"
  shows "batch_valid []
    \<and> publishInternal_validate [] 0 = Inr 0
    \<and> expected_receipt_count [] = 0
    \<and> PublishMultiple lib c [] = publishInternal_send lib c [] 0
    \<and> snd (PublishMultiple lib c []) = [request_for c jsonBytes]"
proof -
  have req: "(if accessToken c \<noteq> ''''
              then Header_Add (Header_Add \<lparr>Method = ''POST'', URL = host c @ apiURL c @ ''/push/send'',
                     http_Request.Body = jsonBytes, Header = []\<rparr> ''Content-Type'' ''application/json'')
                     ''Authorization'' (''Bearer '' @ accessToken c)
              else Header_Add \<lparr>Method = ''POST'', URL = host c @ apiURL c @ ''/push/send'',
                     http_Request.Body = jsonBytes, Header = []\<rparr> ''Content-Type'' ''application/json'')
             = request_for c jsonBytes"
    by (simp add: Header_Add_def request_for_def)
  have "snd (publishInternal_send lib c [] 0) = [request_for c jsonBytes]"
    unfolding publishInternal_send_def Let_def http_NewRequest_def
    by (simp only: assms req sum.case option.case)
       (simp split: sum.splits option.splits)
  then show ?thesis
    by (simp add: PublishMultiple_def publishInternal_def batch_valid_def
        expected_receipt_count_def)
qed

theorem empty_batch_is_sent_witness:
  "json_Marshal (lib_decoding (Some (envelope_of []))) [] = Inr ''[]''
   \<and> url_Parse (lib_decoding (Some (envelope_of [])))
        (host (client_receiving response_200) @ apiURL (client_receiving response_200)
           @ ''/push/send'') = None
   \<and> PublishMultiple (lib_decoding (Some (envelope_of []))) (client_receiving response_200) []
       = (Ok [],
          [\<lparr>Method = ''POST'', URL = ''https://exp.host/--/api/v2/push/send'',
            http_Request.Body = ''[]'',
            Header = [(''Content-Type'', ''application/json'')]\<rparr>])"
proof -
  have m: "json_Marshal (lib_decoding (Some (envelope_of []))) [] = Inr ''[]''"
    and u: "url_Parse (lib_decoding (Some (envelope_of [])))
        (host (client_receiving response_200) @ apiURL (client_receiving response_200)
           @ ''/push/send'') = None"
    by (simp_all add: lib_decoding_def)
  from empty_batch_is_sent [OF m u]
  have "PublishMultiple (lib_decoding (Some (envelope_of []))) (client_receiving response_200) []
          = publishInternal_send (lib_decoding (Some (envelope_of [])))
              (client_receiving response_200) [] 0"
    by simp
  also have "\<dots> = (Ok [],
          [\<lparr>Method = ''POST'', URL = ''https://exp.host/--/api/v2/push/send'',
            http_Request.Body = ''[]'',
            Header = [(''Content-Type'', ''application/json'')]\<rparr>])"
    by (simp add: publishInternal_send_def http_NewRequest_def Header_Add_def
        lib_decoding_def client_receiving_def response_200_def checkStatus_def
        publishInternal_reconcile_def envelope_of_def)
  finally show ?thesis
    using m u by simp
qed

section \<open>Status checking\<close>

lemma checkStatus_url_passes:
  "checkStatus_url resp = None \<longleftrightarrow> 200 \<le> StatusCode resp \<and> StatusCode resp \<le> 299"
  by (simp add: checkStatus_url_def)

lemma publish_url_arrived:
  assumes "response_arrives lib c messages resp"
  shows "PublishMultiple_url lib c messages =
     (case checkStatus_url resp of
        Some e \<Rightarrow> (Err e, [request_for_url c (projr (json_Marshal lib messages))])
      | None \<Rightarrow>
      case json_Decode lib (http_Response.Body resp) of
        Inl e \<Rightarrow> (Err (json_Error e), [request_for_url c (projr (json_Marshal lib messages))])
      | Inr None \<Rightarrow> (Panic nil_pointer_dereference, [request_for_url c (projr (json_Marshal lib messages))])
      | Inr (Some r) \<Rightarrow>
          if Errors r \<noteq> None then
            (Err (NewPushServerError ''Invalid server response'' resp r (Errors r)), [request_for_url c (projr (json_Marshal lib messages))])
          else case Response.Data r of
            None \<Rightarrow> (Err (NewPushServerError ''Invalid server response'' resp r None), [request_for_url c (projr (json_Marshal lib messages))])
          | Some data \<Rightarrow>
              if length messages \<noteq> length data then
                (Err (NewPushServerError (mismatched_length (length messages) (length data))
                        resp r None), [request_for_url c (projr (json_Marshal lib messages))])
              else (case attach_by_index [0..<length data] messages data of
                      None \<Rightarrow> (Panic index_out_of_range, [request_for_url c (projr (json_Marshal lib messages))])
                    | Some data' \<Rightarrow> (Ok data', [request_for_url c (projr (json_Marshal lib messages))])))"
proof -
  from assms obtain jsonBytes where v: "publishInternal_url_validate messages = None"
    and m: "json_Marshal lib messages = Inr jsonBytes"
    and u: "url_Parse lib (if url c \<noteq> '''' then url c else host c @ apiURL c @ ''/push/send'') = None"
    and d: "httpClient c (request_for_url c jsonBytes) = Inr resp"
    by (auto simp add: response_arrives_def request_for_url_def split: sum.splits)
  have req: "(if accessToken c \<noteq> ''''
              then Header_Add (Header_Add \<lparr>Method = ''POST'',
                     URL = (if url c \<noteq> '''' then url c else host c @ apiURL c @ ''/push/send''),
                     http_Request.Body = jsonBytes, Header = []\<rparr> ''Content-Type'' ''application/json'')
                     ''Authorization'' (''Bearer '' @ accessToken c)
              else Header_Add \<lparr>Method = ''POST'',
                     URL = (if url c \<noteq> '''' then url c else host c @ apiURL c @ ''/push/send''),
                     http_Request.Body = jsonBytes, Header = []\<rparr> ''Content-Type'' ''application/json'')
             = request_for_url c jsonBytes"
    by (simp add: Header_Add_def request_for_url_def)
  show ?thesis
    unfolding PublishMultiple_url_def publishInternal_url_def Let_def http_NewRequest_def
    by (simp only: v m u req d sum.case option.case sum.sel)
qed

text \<open>
  The \<open>checkStatus\<close> of the multi-recipient client and of \<open>sdk/push_client.go\<close> passes
  exactly the statuses 200 to 299 and has one generic error for all the others.
\<close>

lemma checkStatus_generic_only:
  "(checkStatus resp = (None :: 'to error option)
      \<longleftrightarrow> 200 \<le> StatusCode resp \<and> StatusCode resp \<le> 299)
   \<and> (\<forall>e :: 'to error. checkStatus resp = Some e \<longrightarrow> GatewayStatusError e = Some GenericFailure)"
  by (auto simp add: checkStatus_def GatewayStatusError_def)

lemma publish_arrived:
  assumes "answer_arrives lib c messages resp"
  shows "\<exists>jsonBytes. json_Marshal lib messages = Inr jsonBytes \<and>
     PublishMultiple lib c messages =
     (case checkStatus resp of
        Some e \<Rightarrow> (Err e, [request_for c jsonBytes])
      | None \<Rightarrow>
      case json_Decode lib (http_Response.Body resp) of
        Inl e \<Rightarrow> (Err (json_Error e), [request_for c jsonBytes])
      | Inr None \<Rightarrow> (Panic nil_pointer_dereference, [request_for c jsonBytes])
      | Inr (Some r) \<Rightarrow>
          (publishInternal_reconcile resp r messages (expected_receipt_count messages),
           [request_for c jsonBytes]))"
proof -
  from assms obtain jsonBytes where v: "batch_valid messages"
    and m: "json_Marshal lib messages = Inr jsonBytes"
    and u: "url_Parse lib (host c @ apiURL c @ ''/push/send'') = None"
    and d: "httpClient c (request_for c jsonBytes) = Inr resp"
    by (auto simp add: answer_arrives_def split: sum.splits)
  have req: "(if accessToken c \<noteq> ''''
              then Header_Add (Header_Add \<lparr>Method = ''POST'', URL = host c @ apiURL c @ ''/push/send'',
                     http_Request.Body = jsonBytes, Header = []\<rparr> ''Content-Type'' ''application/json'')
                     ''Authorization'' (''Bearer '' @ accessToken c)
              else Header_Add \<lparr>Method = ''POST'', URL = host c @ apiURL c @ ''/push/send'',
                     http_Request.Body = jsonBytes, Header = []\<rparr> ''Content-Type'' ''application/json'')
             = request_for c jsonBytes"
    by (simp add: Header_Add_def request_for_def)
  have "publishInternal_send lib c messages (expected_receipt_count messages) =
     (case checkStatus resp of
        Some e \<Rightarrow> (Err e, [request_for c jsonBytes])
      | None \<Rightarrow>
      case json_Decode lib (http_Response.Body resp) of
        Inl e \<Rightarrow> (Err (json_Error e), [request_for c jsonBytes])
      | Inr None \<Rightarrow> (Panic nil_pointer_dereference, [request_for c jsonBytes])
      | Inr (Some r) \<Rightarrow>
          (publishInternal_reconcile resp r messages (expected_receipt_count messages),
           [request_for c jsonBytes]))"
    unfolding publishInternal_send_def Let_def http_NewRequest_def
    by (simp only: m u req d sum.case option.case)
  with validate_valid [OF v, of 0] m show ?thesis
    by (simp add: PublishMultiple_def publishInternal_def)
qed

text \<open>
  Claim C6, as the code has it. In the client with the URL override, whose \<open>checkStatus\<close>
  knows the authentication statuses: status checking passes exactly for 200 to 299; for a
  response that arrives with status 401 or 403 \<open>PublishMultiple\<close> fails with the status
  error classified as an authentication failure, for any other status outside 200 to 299
  with the generic one; in both cases the outcome is the same whatever the JSON decoder
  would do with the body (the body is not parsed); a 2xx response whose body the decoder
  rejects fails with the decoder's error, which is a malformed-response error and neither
  a transport nor a status error. In the multi-recipient client status checking passes
  exactly for 200 to 299 as well, but every other status, 401 and 403 among them, fails
  with the generic status error, again without the body being parsed; a 2xx response with
  a body the decoder rejects fails with the decoder's error there too.
\<close>

theorem status_classification:
  assumes "response_arrives lib c messages resp"
  shows "(checkStatus_url resp = (None :: tokens error option)
            \<longleftrightarrow> 200 \<le> StatusCode resp \<and> StatusCode resp \<le> 299)
    \<and> (StatusCode resp = 401 \<or> StatusCode resp = 403 \<longrightarrow>
          (\<exists>e. checkStatus_url resp = Some e
              \<and> fst (PublishMultiple_url lib c messages) = Err e
              \<and> GatewayStatusError e = Some AuthenticationFailure))
    \<and> (\<not> (200 \<le> StatusCode resp \<and> StatusCode resp \<le> 299)
         \<and> StatusCode resp \<noteq> 401 \<and> StatusCode resp \<noteq> 403 \<longrightarrow>
          (\<exists>e. checkStatus_url resp = Some e
              \<and> fst (PublishMultiple_url lib c messages) = Err e
              \<and> GatewayStatusError e = Some GenericFailure))
    \<and> (\<not> (200 \<le> StatusCode resp \<and> StatusCode resp \<le> 299) \<longrightarrow>
          (\<forall>decode. PublishMultiple_url (lib\<lparr>json_Decode := decode\<rparr>) c messages
                      = PublishMultiple_url lib c messages))
    \<and> (200 \<le> StatusCode resp \<and> StatusCode resp \<le> 299 \<longrightarrow>
          (\<forall>reason. json_Decode lib (http_Response.Body resp) = Inl reason \<longrightarrow>
              fst (PublishMultiple_url lib c messages) = Err (json_Error reason)
              \<and> is_MalformedResponseError (json_Error reason :: tokens error)
              \<and> \<not> is_TransportError (json_Error reason :: tokens error)
              \<and> GatewayStatusError (json_Error reason :: tokens error) = None))
    \<and> (checkStatus resp = (None :: tokens error option)
            \<longleftrightarrow> 200 \<le> StatusCode resp \<and> StatusCode resp \<le> 299)
    \<and> (answer_arrives lib' c' messages' resp
         \<and> \<not> (200 \<le> StatusCode resp \<and> StatusCode resp \<le> 299) \<longrightarrow>
          fst (PublishMultiple lib' c' messages')
            = Err (fmt_Errorf (''Invalid response ('' @ show_int (StatusCode resp) @ '' ''
                                 @ http_Response.Status resp @ '')''))
          \<and> GatewayStatusError
               (fmt_Errorf (''Invalid response ('' @ show_int (StatusCode resp) @ '' ''
                              @ http_Response.Status resp @ '')'') :: tokens error)
              = Some GenericFailure
          \<and> (\<forall>decode. PublishMultiple (lib'\<lparr>json_Decode := decode\<rparr>) c' messages'
                        = PublishMultiple lib' c' messages'))
    \<and> (answer_arrives lib' c' messages' resp
         \<and> 200 \<le> StatusCode resp \<and> StatusCode resp \<le> 299 \<longrightarrow>
          (\<forall>reason. json_Decode lib' (http_Response.Body resp) = Inl reason \<longrightarrow>
              fst (PublishMultiple lib' c' messages') = Err (json_Error reason)))"
proof -
  have arrives: "response_arrives (lib\<lparr>json_Decode := decode\<rparr>) c messages resp" for decode
    using assms by (auto simp add: response_arrives_def split: sum.splits)
  have marshal: "json_Marshal (lib\<lparr>json_Decode := decode\<rparr>) messages = json_Marshal lib messages"
    for decode by simp
  note pub = publish_url_arrived [OF assms]
  have auth: "StatusCode resp = 401 \<or> StatusCode resp = 403 \<Longrightarrow>
      \<exists>e. checkStatus_url resp = Some e
          \<and> fst (PublishMultiple_url lib c messages) = Err e
          \<and> GatewayStatusError e = Some AuthenticationFailure"
    unfolding pub by (auto simp add: checkStatus_url_def GatewayStatusError_def)
  have generic: "\<not> (200 \<le> StatusCode resp \<and> StatusCode resp \<le> 299) \<Longrightarrow>
      StatusCode resp \<noteq> 401 \<Longrightarrow> StatusCode resp \<noteq> 403 \<Longrightarrow>
      \<exists>e. checkStatus_url resp = Some e
          \<and> fst (PublishMultiple_url lib c messages) = Err e
          \<and> GatewayStatusError e = Some GenericFailure"
    unfolding pub by (auto simp add: checkStatus_url_def GatewayStatusError_def)
  have unparsed: "\<not> (200 \<le> StatusCode resp \<and> StatusCode resp \<le> 299) \<Longrightarrow>
      PublishMultiple_url (lib\<lparr>json_Decode := decode\<rparr>) c messages
        = PublishMultiple_url lib c messages" for decode
    unfolding pub publish_url_arrived [OF arrives] marshal
    by (auto simp add: checkStatus_url_def)
  have unparsable: "200 \<le> StatusCode resp \<and> StatusCode resp \<le> 299 \<Longrightarrow>
      json_Decode lib (http_Response.Body resp) = Inl reason \<Longrightarrow>
      fst (PublishMultiple_url lib c messages) = Err (json_Error reason)" for reason
    unfolding pub by (simp add: checkStatus_url_def)
  have kinds: "is_MalformedResponseError (json_Error reason :: tokens error)
      \<and> \<not> is_TransportError (json_Error reason :: tokens error)
      \<and> GatewayStatusError (json_Error reason :: tokens error) = None" for reason
    by (simp add: is_MalformedResponseError_def is_TransportError_def GatewayStatusError_def)
  have plain: "checkStatus resp = (None :: tokens error option)
            \<longleftrightarrow> 200 \<le> StatusCode resp \<and> StatusCode resp \<le> 299"
    by (simp add: checkStatus_def)
  have multi_fails: "fst (PublishMultiple lib' c' messages')
            = Err (fmt_Errorf (''Invalid response ('' @ show_int (StatusCode resp) @ '' ''
                                 @ http_Response.Status resp @ '')''))
          \<and> GatewayStatusError
               (fmt_Errorf (''Invalid response ('' @ show_int (StatusCode resp) @ '' ''
                              @ http_Response.Status resp @ '')'') :: tokens error)
              = Some GenericFailure
          \<and> (\<forall>decode. PublishMultiple (lib'\<lparr>json_Decode := decode\<rparr>) c' messages'
                        = PublishMultiple lib' c' messages')"
    if there: "answer_arrives lib' c' messages' resp"
      and bad: "\<not> (200 \<le> StatusCode resp \<and> StatusCode resp \<le> 299)"
  proof -
    have there': "answer_arrives (lib'\<lparr>json_Decode := decode\<rparr>) c' messages' resp" for decode
      using there by (auto simp add: answer_arrives_def split: sum.splits)
    from publish_arrived [OF there] bad
    obtain jsonBytes where m: "json_Marshal lib' messages' = Inr jsonBytes"
      and run: "PublishMultiple lib' c' messages'
         = (Err (fmt_Errorf (''Invalid response ('' @ show_int (StatusCode resp) @ '' ''
                                 @ http_Response.Status resp @ '')'')), [request_for c' jsonBytes])"
      by (auto simp add: checkStatus_def)
    have "PublishMultiple (lib'\<lparr>json_Decode := decode\<rparr>) c' messages'
            = PublishMultiple lib' c' messages'" for decode
      using publish_arrived [OF there', of decode] bad m run
      by (auto simp add: checkStatus_def)
    with run show ?thesis
      by (simp add: GatewayStatusError_def)
  qed
  have multi_unparsable: "fst (PublishMultiple lib' c' messages') = Err (json_Error reason)"
    if "answer_arrives lib' c' messages' resp"
      and "200 \<le> StatusCode resp \<and> StatusCode resp \<le> 299"
      and "json_Decode lib' (http_Response.Body resp) = Inl reason" for reason
    using publish_arrived [OF that(1)] that(2,3) by (auto simp add: checkStatus_def)
  show ?thesis
    using checkStatus_url_passes [of resp] auth generic unparsed unparsable kinds plain
      multi_fails multi_unparsable
    by blast
qed

lemma show_int_401: "show_int 401 = ''401''"
  by (simp add: show_int_def show_nat.simps digit_def)

lemma sample_arrival:
  "response_arrives (lib_decoding r) (client_url_receiving resp) batch_2_1 resp"
  "response_arrives lib_failing_decode (client_url_receiving resp) batch_2_1 resp"
  by (simp_all add: response_arrives_def lib_decoding_def lib_failing_decode_def
      client_url_receiving_def batch_2_1_def message_to_def)

lemma sample_answer:
  "answer_arrives (lib_decoding r) (client_receiving resp) batch_2_1 resp"
  by (simp add: answer_arrives_def batch_2_1_valid lib_decoding_def client_receiving_def)

theorem status_classification_witness:
  "response_arrives (lib_decoding None)
     (client_url_receiving (response_with 401 ''401 Unauthorized'')) batch_2_1
     (response_with 401 ''401 Unauthorized'')
   \<and> fst (PublishMultiple_url (lib_decoding None)
            (client_url_receiving (response_with 401 ''401 Unauthorized'')) batch_2_1)
       = Err (fmt_Errorf ''invalid access token %!s(int=401)'')
   \<and> response_arrives (lib_decoding None)
     (client_url_receiving (response_with 500 ''500 Internal Server Error'')) batch_2_1
     (response_with 500 ''500 Internal Server Error'')
   \<and> fst (PublishMultiple_url (lib_decoding None)
            (client_url_receiving (response_with 500 ''500 Internal Server Error'')) batch_2_1)
       = Err (fmt_Errorf ''invalid response 500 Internal Server Error'')
   \<and> response_arrives lib_failing_decode
     (client_url_receiving (response_with 200 ''200 OK'')) batch_2_1
     (response_with 200 ''200 OK'')
   \<and> fst (PublishMultiple_url lib_failing_decode
            (client_url_receiving (response_with 200 ''200 OK'')) batch_2_1)
       = Err (json_Error ''invalid character'')
   \<and> answer_arrives (lib_decoding None)
        (client_receiving (response_with 401 ''401 Unauthorized'')) batch_2_1
        (response_with 401 ''401 Unauthorized'')
   \<and> fst (PublishMultiple (lib_decoding None)
            (client_receiving (response_with 401 ''401 Unauthorized'')) batch_2_1)
       = Err (fmt_Errorf ''Invalid response (401 401 Unauthorized)'')
   \<and> answer_arrives lib_failing_decode
        (client_receiving (response_with 200 ''200 OK'')) batch_2_1
        (response_with 200 ''200 OK'')
   \<and> fst (PublishMultiple lib_failing_decode
            (client_receiving (response_with 200 ''200 OK'')) batch_2_1)
       = Err (json_Error ''invalid character'')"
proof -
  have a: "checkStatus_url (response_with 401 ''401 Unauthorized'')
             = Some (fmt_Errorf ''invalid access token %!s(int=401)'' :: tokens error)"
    by (simp add: checkStatus_url_def response_with_def show_int_401)
  have b: "checkStatus_url (response_with 500 ''500 Internal Server Error'')
             = Some (fmt_Errorf ''invalid response 500 Internal Server Error'' :: tokens error)"
    by (simp add: checkStatus_url_def response_with_def)
  have c: "json_Decode (lib_failing_decode :: tokens stdlib)
             (http_Response.Body (response_with 200 ''200 OK'')) = Inl ''invalid character''"
    by (simp add: lib_failing_decode_def)
  have codes: "StatusCode (response_with 401 ''401 Unauthorized'') = 401"
    "StatusCode (response_with 500 ''500 Internal Server Error'') = 500"
    "StatusCode (response_with 200 ''200 OK'') = 200"
    "http_Response.Status (response_with 401 ''401 Unauthorized'') = ''401 Unauthorized''"
    by (simp_all add: response_with_def)
  have there: "answer_arrives (lib_decoding None)
        (client_receiving (response_with 401 ''401 Unauthorized'')) batch_2_1
        (response_with 401 ''401 Unauthorized'')"
    by (rule sample_answer)
  have there': "answer_arrives lib_failing_decode
        (client_receiving (response_with 200 ''200 OK'')) batch_2_1
        (response_with 200 ''200 OK'')"
    by (simp add: answer_arrives_def batch_2_1_valid lib_failing_decode_def client_receiving_def)
  show ?thesis
    using status_classification [OF sample_arrival(1) [of None "response_with 401 ''401 Unauthorized''"],
        of "lib_decoding None" "client_receiving (response_with 401 ''401 Unauthorized'')" batch_2_1]
      status_classification [OF sample_arrival(1) [of None "response_with 500 ''500 Internal Server Error''"],
        of "lib_decoding None" "client_receiving (response_with 401 ''401 Unauthorized'')" batch_2_1]
      status_classification [OF sample_arrival(2) [of "response_with 200 ''200 OK''"],
        of lib_failing_decode "client_receiving (response_with 200 ''200 OK'')" batch_2_1]
      sample_arrival a b c there there'
    by (simp add: codes show_int_401)
qed

text \<open>
  Claim C6 as stated has 401 and 403 classified as authentication failures by status
  checking as such. The multi-recipient client answers a 401 with the generic error.
\<close>

theorem multi_recipient_401_is_generic:
  "answer_arrives (lib_decoding None)
        (client_receiving (response_with 401 ''401 Unauthorized'')) batch_2_1
        (response_with 401 ''401 Unauthorized'')
   \<and> checkStatus (response_with 401 ''401 Unauthorized'')
       = Some (fmt_Errorf ''Invalid response (401 401 Unauthorized)'' :: tokens error)
   \<and> fst (PublishMultiple (lib_decoding None)
            (client_receiving (response_with 401 ''401 Unauthorized'')) batch_2_1)
       = Err (fmt_Errorf ''Invalid response (401 401 Unauthorized)'')
   \<and> GatewayStatusError (fmt_Errorf ''Invalid response (401 401 Unauthorized)'' :: tokens error)
       = Some GenericFailure
   \<and> GatewayStatusError (fmt_Errorf ''Invalid response (401 401 Unauthorized)'' :: tokens error)
       \<noteq> Some AuthenticationFailure"
proof -
  have status: "checkStatus (response_with 401 ''401 Unauthorized'')
       = Some (fmt_Errorf ''Invalid response (401 401 Unauthorized)'' :: tokens error)"
    by (simp add: checkStatus_def response_with_def show_int_401)
  from publish_arrived [OF sample_answer [of None "response_with 401 ''401 Unauthorized''"]]
  have "fst (PublishMultiple (lib_decoding None)
            (client_receiving (response_with 401 ''401 Unauthorized'')) batch_2_1)
       = Err (fmt_Errorf ''Invalid response (401 401 Unauthorized)'')"
    by (auto simp add: status)
  with status sample_answer [of None "response_with 401 ''401 Unauthorized''"] show ?thesis
    by (simp add: GatewayStatusError_def)
qed

section \<open>Publish in the single-token client\<close>

lemma attach_by_index_total:
  "\<forall>i \<in> set indices. i < length data \<and> i < length messages \<Longrightarrow>
     \<exists>data'. attach_by_index indices messages data = Some data' \<and> length data' = length data"
proof (induction indices arbitrary: data)
  case Nil
  then show ?case by simp
next
  case (Cons i rest)
  let ?data = "data[i := (data ! i)\<lparr>PushMessage := messages ! i\<rparr>]"
  from Cons.prems have "\<forall>j \<in> set rest. j < length ?data \<and> j < length messages"
    by simp
  from Cons.IH [OF this] show ?case
    using Cons.prems by simp
qed

lemma attach_by_index_range:
  "length messages = length data \<Longrightarrow>
     \<exists>data'. attach_by_index [0..<length data] messages data = Some data'
            \<and> length data' = length data"
  by (rule attach_by_index_total) simp

lemma publishInternal_sdk_outcomes:
  "fst (publishInternal_sdk lib c messages) \<noteq> Panic index_out_of_range
   \<and> (\<forall>responses. fst (publishInternal_sdk lib c messages) = Ok responses
         \<longrightarrow> length responses = length messages)"
proof -
  have never: "attach_by_index [0..<length data] messages data \<noteq> None"
    if "length messages = length data" for data
    using attach_by_index_range [OF that] by auto
  have keeps: "length data' = length data"
    if "length messages = length data"
      and "attach_by_index [0..<length data] messages data = Some data'" for data data'
    using attach_by_index_range [OF that(1)] that(2) by auto
  show ?thesis
    unfolding publishInternal_sdk_def Let_def
    by (auto split: option.splits sum.splits prod.splits simp add: never dest: keeps)
qed

text \<open>
  Claim C9. In the single-token client \<open>Publish\<close> returns the first element of the result
  of \<open>PublishMultiple\<close> for the one-message batch; the index 0 is always in bounds (no
  index panic), because whenever \<open>PublishMultiple\<close> returns without error its result has
  exactly one receipt per submitted message, hence exactly one for that batch.
\<close>

theorem Publish_index_in_bounds:
  "fst (Publish_sdk lib c message) \<noteq> Panic index_out_of_range
   \<and> (\<forall>responses. fst (PublishMultiple_sdk lib c messages) = Ok responses
         \<longrightarrow> length responses = length messages)
   \<and> (\<forall>responses. fst (PublishMultiple_sdk lib c [message]) = Ok responses
         \<longrightarrow> length responses = 1 \<and> fst (Publish_sdk lib c message) = Ok (responses ! 0))"
proof -
  note one = publishInternal_sdk_outcomes [of lib c "[message]"]
  have "fst (Publish_sdk lib c message) \<noteq> Panic index_out_of_range"
    using one unfolding Publish_sdk_def PublishMultiple_sdk_def
    by (cases "publishInternal_sdk lib c [message]"; cases "fst (publishInternal_sdk lib c [message])")
       auto
  moreover have "fst (PublishMultiple_sdk lib c [message]) = Ok responses
         \<Longrightarrow> length responses = 1 \<and> fst (Publish_sdk lib c message) = Ok (responses ! 0)"
    for responses
    using one unfolding Publish_sdk_def PublishMultiple_sdk_def
    by (cases "publishInternal_sdk lib c [message]") auto
  ultimately show ?thesis
    using publishInternal_sdk_outcomes [of lib c messages]
    by (simp add: PublishMultiple_sdk_def)
qed

theorem Publish_index_in_bounds_witness:
  "fst (PublishMultiple_sdk (lib_decoding (Some (envelope_of [receipt_of '''' ''ok''])))
          (client_sdk_receiving response_200) [message_to ''ExponentPushToken[a]'' ''hello''])
     = Ok [(receipt_of '''' ''ok'')\<lparr>PushMessage := message_to ''ExponentPushToken[a]'' ''hello''\<rparr>]
   \<and> fst (Publish_sdk (lib_decoding (Some (envelope_of [receipt_of '''' ''ok''])))
          (client_sdk_receiving response_200) (message_to ''ExponentPushToken[a]'' ''hello''))
     = Ok ((receipt_of '''' ''ok'')\<lparr>PushMessage := message_to ''ExponentPushToken[a]'' ''hello''\<rparr>)"
proof -
  have run: "fst (PublishMultiple_sdk (lib_decoding (Some (envelope_of [receipt_of '''' ''ok''])))
          (client_sdk_receiving response_200) [message_to ''ExponentPushToken[a]'' ''hello''])
     = Ok [(receipt_of '''' ''ok'')\<lparr>PushMessage := message_to ''ExponentPushToken[a]'' ''hello''\<rparr>]"
    by (simp add: PublishMultiple_sdk_def publishInternal_sdk_def httpClient_Post_def
        http_NewRequest_def Header_Add_def lib_decoding_def client_sdk_receiving_def
        response_200_def checkStatus_def envelope_of_def message_to_def)
  from Publish_index_in_bounds [of "lib_decoding (Some (envelope_of [receipt_of '''' ''ok'']))"
      "client_sdk_receiving response_200" "message_to ''ExponentPushToken[a]'' ''hello''"] run
  show ?thesis by simp
qed

section \<open>The caller's batch in the store\<close>

text \<open>
  Every step of the walk leaves the arrays below a reference \<open>n\<close> alone, as long as the
  array of receipts it writes into lies at or above \<open>n\<close>.
\<close>

lemma unchanged_below_refl: "unchanged_below n s s"
  by (simp add: unchanged_below_def)

lemma unchanged_below_trans:
  "unchanged_below n s s' \<Longrightarrow> unchanged_below n s' s'' \<Longrightarrow> unchanged_below n s s''"
  by (simp add: unchanged_below_def)

lemma new_tokens_frame:
  "n \<le> next_ref s \<Longrightarrow> new_tokens ts s = (sl, s') \<Longrightarrow>
     unchanged_below n s s' \<and> n \<le> next_ref s'"
  by (auto simp add: new_tokens_def unchanged_below_def)

lemma new_receipts_frame:
  "n \<le> next_ref s \<Longrightarrow> new_receipts rs s = (d, s') \<Longrightarrow>
     unchanged_below n s s' \<and> n \<le> next_ref s' \<and> n \<le> d"
  by (auto simp add: new_receipts_def unchanged_below_def)

lemma set_receipt_frame:
  "n \<le> d \<Longrightarrow> unchanged_below n s (set_receipt d i v s)
     \<and> next_ref (set_receipt d i v s) = next_ref s"
  by (auto simp add: set_receipt_def unchanged_below_def)

lemma store_receipts_frame:
  "n \<le> next_ref s \<Longrightarrow> store_receipts rs s = (stored, s') \<Longrightarrow>
     unchanged_below n s s' \<and> n \<le> next_ref s'"
proof (induction rs arbitrary: s stored s')
  case Nil
  then show ?case by (simp add: unchanged_below_refl)
next
  case (Cons r rest)
  obtain sl s1 where first: "(if To (PushMessage r) = [] then (None, s)
                      else new_tokens (To (PushMessage r)) s) = (sl, s1)"
    by (cases "(if To (PushMessage r) = [] then (None, s)
                      else new_tokens (To (PushMessage r)) s)") auto
  obtain rs' s2 where others: "store_receipts rest s1 = (rs', s2)"
    by (cases "store_receipts rest s1") auto
  from first Cons.prems(1) have one: "unchanged_below n s s1 \<and> n \<le> next_ref s1"
    using new_tokens_frame [of n s "To (PushMessage r)" sl s1]
    by (auto simp add: unchanged_below_refl split: if_splits)
  from Cons.IH [OF _ others] one have two: "unchanged_below n s1 s2 \<and> n \<le> next_ref s2"
    by simp
  from Cons.prems(2) first others have "s' = s2"
    by (simp add: Let_def)
  with one two show ?case
    by (auto intro: unchanged_below_trans)
qed

lemma attach_recipients_store_frame:
  "n \<le> next_ref s \<Longrightarrow> n \<le> d \<Longrightarrow>
     unchanged_below n s (snd (attach_recipients_store msg js i d s))
     \<and> n \<le> next_ref (snd (attach_recipients_store msg js i d s))"
proof (induction js arbitrary: i s)
  case Nil
  then show ?case by (simp add: unchanged_below_refl)
next
  case (Cons j rest)
  show ?case
  proof (cases "j < length (tokens_at s (To msg)) \<and> i < length (receipt_arrays s d)")
    case False
    then show ?thesis using Cons.prems by (auto simp add: unchanged_below_refl)
  next
    case True
    let ?s1 = "set_receipt d i ((receipt_arrays s d ! i)\<lparr>PushMessage := msg\<rparr>) s"
    obtain fresh s2 where alloc: "new_tokens [tokens_at s (To msg) ! j] ?s1 = (fresh, s2)"
      by (cases "new_tokens [tokens_at s (To msg) ! j] ?s1") auto
    let ?s3 = "set_receipt d i
                   ((receipt_arrays s2 d ! i)
                      \<lparr>PushMessage := (PushMessage (receipt_arrays s2 d ! i))\<lparr>To := fresh\<rparr>\<rparr>) s2"
    have a: "unchanged_below n s ?s1 \<and> n \<le> next_ref ?s1"
      using set_receipt_frame [OF Cons.prems(2)] Cons.prems(1) by simp
    then have b: "unchanged_below n ?s1 s2 \<and> n \<le> next_ref s2"
      using new_tokens_frame [OF _ alloc] by simp
    then have c: "unchanged_below n s2 ?s3 \<and> n \<le> next_ref ?s3"
      using set_receipt_frame [OF Cons.prems(2)] by simp
    from a b c have upto: "unchanged_below n s ?s3" and lim: "n \<le> next_ref ?s3"
      by (auto intro: unchanged_below_trans)
    have step: "attach_recipients_store msg (j # rest) i d s
                  = attach_recipients_store msg rest (i + 1) d ?s3"
      using True alloc by (simp add: Let_def)
    from Cons.IH [OF lim Cons.prems(2)] upto show ?thesis
      unfolding step by (auto intro: unchanged_below_trans)
  qed
qed

lemma attach_messages_store_frame:
  "n \<le> next_ref s \<Longrightarrow> n \<le> d \<Longrightarrow>
     unchanged_below n s (snd (attach_messages_store ks messages i d s))
     \<and> n \<le> next_ref (snd (attach_messages_store ks messages i d s))"
proof (induction ks arbitrary: i s)
  case Nil
  then show ?case by (simp add: unchanged_below_refl)
next
  case (Cons k rest)
  show ?case
  proof (cases "k < length (messages_at s messages)")
    case False
    then show ?thesis using Cons.prems by (auto simp add: unchanged_below_refl)
  next
    case True
    let ?msg = "messages_at s messages ! k"
    let ?inner = "attach_recipients_store ?msg [0..<length (tokens_at s (To ?msg))] i d s"
    note inner = attach_recipients_store_frame [OF Cons.prems, of ?msg "[0..<length (tokens_at s (To ?msg))]" i]
    obtain res s' where run: "?inner = (res, s')"
      by (cases ?inner) auto
    from inner run have fr: "unchanged_below n s s'" and lim: "n \<le> next_ref s'"
      by simp_all
    show ?thesis
    proof (cases res)
      case None
      then have "attach_messages_store (k # rest) messages i d s = (None, s')"
        using True run by (simp add: Let_def)
      with fr lim show ?thesis by simp
    next
      case (Some i')
      then have step: "attach_messages_store (k # rest) messages i d s
                         = attach_messages_store rest messages i' d s'"
        using True run by (simp add: Let_def)
      from fr Cons.IH [OF lim Cons.prems(2), of i'] show ?thesis
        unfolding step by (auto intro: unchanged_below_trans)
    qed
  qed
qed

lemma decode_into_store_frame:
  "n \<le> next_ref s \<Longrightarrow> decode_into_store r s = (data, s') \<Longrightarrow>
     unchanged_below n s s' \<and> n \<le> next_ref s' \<and> (\<forall>d. data = Some d \<longrightarrow> n \<le> d)"
proof (cases "Response.Data r")
  case None
  assume "n \<le> next_ref s" "decode_into_store r s = (data, s')"
  with None show ?thesis
    by (auto simp add: decode_into_store_def unchanged_below_refl)
next
  case (Some receipts)
  assume n: "n \<le> next_ref s" and run: "decode_into_store r s = (data, s')"
  obtain stored s0 where st: "store_receipts receipts s = (stored, s0)"
    by (cases "store_receipts receipts s") auto
  obtain d s1 where al: "new_receipts stored s0 = (d, s1)"
    by (cases "new_receipts stored s0") auto
  from store_receipts_frame [OF n st] have a: "unchanged_below n s s0" "n \<le> next_ref s0"
    by simp_all
  from new_receipts_frame [OF a(2) al]
  have b: "unchanged_below n s0 s1" "n \<le> next_ref s1" "n \<le> d"
    by simp_all
  from run Some st al have "data = Some d" "s' = s1"
    by (simp_all add: decode_into_store_def)
  with a b show ?thesis
    by (auto intro: unchanged_below_trans)
qed

lemma publishInternal_reconcile_store_frame:
  assumes "n \<le> next_ref s" and "\<forall>d. data = Some d \<longrightarrow> n \<le> d"
  shows "unchanged_below n s
           (snd (publishInternal_reconcile_store resp r data messages expectedReceipts s))"
proof (cases data)
  case None
  then show ?thesis
    by (simp add: publishInternal_reconcile_store_def unchanged_below_refl)
next
  case (Some d)
  with assms(2) have d: "n \<le> d" by simp
  note walk = attach_messages_store_frame [OF assms(1) d,
      of "[0..<length (messages_at s messages)]" messages 0]
  show ?thesis
    using walk Some
    by (auto simp add: publishInternal_reconcile_store_def unchanged_below_refl
        split: prod.splits option.splits)
qed

lemma publishInternal_store_frame:
  "unchanged_below (next_ref s) s (snd (publishInternal_store lib c messages s))"
proof -
  have tail: "unchanged_below (next_ref s) s
      (snd (let (data, s1) = decode_into_store r s;
                (outcome, s2) =
                   publishInternal_reconcile_store resp r data messages expectedReceipts s1
            in ((outcome, sent), s2)))" for r resp expectedReceipts and sent :: "http_Request list"
  proof -
    obtain data s1 where dec: "decode_into_store r s = (data, s1)"
      by (cases "decode_into_store r s") auto
    from decode_into_store_frame [OF order_refl dec]
    have a: "unchanged_below (next_ref s) s s1" "next_ref s \<le> next_ref s1"
      "\<forall>d. data = Some d \<longrightarrow> next_ref s \<le> d"
      by simp_all
    obtain outcome s2 where rec:
      "publishInternal_reconcile_store resp r data messages expectedReceipts s1 = (outcome, s2)"
      by (cases "publishInternal_reconcile_store resp r data messages expectedReceipts s1") auto
    from publishInternal_reconcile_store_frame [OF a(2,3), of resp r messages expectedReceipts]
    have "unchanged_below (next_ref s) s1 s2"
      by (simp add: rec)
    with a(1) have "unchanged_below (next_ref s) s s2"
      by (rule unchanged_below_trans)
    then show ?thesis
      by (simp add: dec rec)
  qed
  show ?thesis
    unfolding publishInternal_store_def Let_def
    by (simp add: unchanged_below_refl tail [unfolded Let_def]
        split: sum.splits option.splits)
qed

lemma load_batch_unchanged:
  assumes "unchanged_below (next_ref s) s s'" and "batch_allocated s messages"
  shows "messages_at s' messages = messages_at s messages
    \<and> load_batch s' messages = load_batch s messages"
proof -
  from assms have m: "messages_at s' messages = messages_at s messages"
    by (auto simp add: batch_allocated_def slice_allocated_def messages_at_def
        unchanged_below_def split: option.splits)
  have "tokens_at s' (To x) = tokens_at s (To x)" if "x \<in> set (messages_at s messages)" for x
    using assms that
    by (auto simp add: batch_allocated_def slice_allocated_def tokens_at_def
        unchanged_below_def split: option.splits)
  then have "load_batch s' messages = load_batch s messages"
    by (simp add: load_batch_def load_message_def m)
  with m show ?thesis by simp
qed

text \<open>
  The walk over the store computes what the walk over values computes: read back from the
  store, its receipts are those of \<open>attach_recipients\<close> and \<open>attach_messages\<close>.
\<close>

lemma extends_refl: "extends s s"
  by (simp add: extends_def)

lemma extends_trans: "extends s s' \<Longrightarrow> extends s' s'' \<Longrightarrow> extends s s''"
  by (auto simp add: extends_def)

lemma tokens_at_extends:
  "extends s s' \<Longrightarrow> slice_allocated s sl \<Longrightarrow> tokens_at s' sl = tokens_at s sl"
  by (auto simp add: extends_def slice_allocated_def tokens_at_def split: option.splits)

lemma slice_allocated_extends:
  "extends s s' \<Longrightarrow> slice_allocated s sl \<Longrightarrow> slice_allocated s' sl"
  by (auto simp add: extends_def slice_allocated_def split: option.splits)

lemma load_message_extends:
  "extends s s' \<Longrightarrow> slice_allocated s (To m) \<Longrightarrow> load_message s' m = load_message s m"
  by (simp add: load_message_def tokens_at_extends)

lemma load_receipt_extends:
  "extends s s' \<Longrightarrow> slice_allocated s (To (PushMessage r)) \<Longrightarrow>
     load_receipt s' r = load_receipt s r"
  by (simp add: load_receipt_def load_message_extends)

lemma receipts_fresh_allocated:
  "receipts_fresh n s d \<Longrightarrow> r \<in> set (receipt_arrays s d) \<Longrightarrow>
     slice_allocated s (To (PushMessage r))"
  by (auto simp add: receipts_fresh_def slice_allocated_def split: option.splits)

lemma To_with_To: "To (with_To t m) = t"
  by (simp add: with_To_def)

lemma attach_recipients_store_round:
  "j < length (tokens_at s (To msg)) \<Longrightarrow> i < length (receipt_arrays s d) \<Longrightarrow>
     attach_recipients_store msg (j # rest) i d s
       = attach_recipients_store msg rest (i + 1) d
           (round_store msg (tokens_at s (To msg) ! j) i d s)"
  by (cases s) (simp add: Let_def new_tokens_def set_receipt_def round_store_def)

lemma round_store_extends: "extends s (round_store msg t i d s)"
  by (simp add: extends_def round_store_def)

lemma round_store_loaded:
  assumes "receipts_fresh n s d" and "i < length (receipt_arrays s d)" and "n \<le> next_ref s"
  shows "map (load_receipt (round_store msg t i d s)) (receipt_arrays (round_store msg t i d s) d)
           = (map (load_receipt s) (receipt_arrays s d))
               [i := (map (load_receipt s) (receipt_arrays s d) ! i)
                       \<lparr>PushMessage := (load_message s msg)\<lparr>To := [t]\<rparr>\<rparr>]"
    and "receipts_fresh n (round_store msg t i d s) d"
    and "length (receipt_arrays (round_store msg t i d s) d) = length (receipt_arrays s d)"
proof -
  let ?s' = "round_store msg t i d s"
  let ?R = "receipt_arrays s d"
  have arr: "receipt_arrays ?s' d = ?R[i := (?R ! i)\<lparr>PushMessage := msg\<lparr>To := Some (next_ref s)\<rparr>\<rparr>]"
    by (simp add: round_store_def)
  have old: "load_receipt ?s' r = load_receipt s r" if "r \<in> set ?R" for r
    using load_receipt_extends [OF round_store_extends] receipts_fresh_allocated [OF assms(1) that]
    by simp
  have new: "load_receipt ?s' ((?R ! i)\<lparr>PushMessage := msg\<lparr>To := Some (next_ref s)\<rparr>\<rparr>)
               = (load_receipt s (?R ! i))\<lparr>PushMessage := (load_message s msg)\<lparr>To := [t]\<rparr>\<rparr>"
    by (simp add: load_receipt_def load_message_def with_To_def tokens_at_def round_store_def)
  show "map (load_receipt ?s') (receipt_arrays ?s' d)
           = (map (load_receipt s) ?R)
               [i := (map (load_receipt s) ?R ! i)
                       \<lparr>PushMessage := (load_message s msg)\<lparr>To := [t]\<rparr>\<rparr>]"
    unfolding arr using assms(2) old new
    by (simp add: map_update list_eq_iff_nth_eq nth_list_update)
  have "case To (PushMessage r) of None \<Rightarrow> True | Some p \<Rightarrow> n \<le> p \<and> p < next_ref ?s'"
    if "r \<in> set (receipt_arrays ?s' d)" for r
  proof -
    from that have "r = (?R ! i)\<lparr>PushMessage := msg\<lparr>To := Some (next_ref s)\<rparr>\<rparr> \<or> r \<in> set ?R"
      unfolding arr using set_update_subset_insert [of ?R i] by auto
    then show ?thesis
    proof
      assume "r = (?R ! i)\<lparr>PushMessage := msg\<lparr>To := Some (next_ref s)\<rparr>\<rparr>"
      then show ?thesis using assms(3) by (simp add: round_store_def)
    next
      assume "r \<in> set ?R"
      with assms(1) show ?thesis
        by (auto simp add: receipts_fresh_def round_store_def split: option.splits)
    qed
  qed
  then show "receipts_fresh n ?s' d"
    by (simp add: receipts_fresh_def)
  show "length (receipt_arrays ?s' d) = length ?R"
    by (simp add: arr)
qed

lemma attach_recipients_store_refines:
  assumes "slice_allocated s (To msg)"
    and "receipts_fresh n s d" and "n \<le> next_ref s"
    and "\<forall>j \<in> set js. j < length (tokens_at s (To msg))"
    and "attach_recipients_store msg js i d s = (res, s')"
  shows "attach_recipients (load_message s msg) (map (\<lambda>j. tokens_at s (To msg) ! j) js) i
           (map (load_receipt s) (receipt_arrays s d))
         = (case res of None \<Rightarrow> None
            | Some i' \<Rightarrow> Some (i', map (load_receipt s') (receipt_arrays s' d)))
    \<and> extends s s' \<and> receipts_fresh n s' d
    \<and> length (receipt_arrays s' d) = length (receipt_arrays s d)"
  using assms
proof (induction js arbitrary: i s)
  case Nil
  then show ?case by (auto simp add: extends_refl)
next
  case (Cons j rest)
  show ?case
  proof (cases "i < length (receipt_arrays s d)")
    case False
    with Cons.prems show ?thesis
      by (auto simp add: extends_refl)
  next
    case True
    let ?t = "tokens_at s (To msg) ! j"
    let ?s1 = "round_store msg ?t i d s"
    from Cons.prems(4) have j: "j < length (tokens_at s (To msg))" by simp
    note ext = round_store_extends [of s msg ?t i d]
    note loaded = round_store_loaded [OF Cons.prems(2) True Cons.prems(3), of msg ?t]
    have lim: "n \<le> next_ref ?s1"
      using Cons.prems(3) by (simp add: round_store_def)
    have toks: "tokens_at ?s1 (To msg) = tokens_at s (To msg)"
      using tokens_at_extends [OF ext Cons.prems(1)] .
    have run: "attach_recipients_store msg rest (i + 1) d ?s1 = (res, s')"
      using Cons.prems(5) attach_recipients_store_round [OF j True] by simp
    have ih: "attach_recipients (load_message ?s1 msg)
                (map (\<lambda>j. tokens_at ?s1 (To msg) ! j) rest) (i + 1)
                (map (load_receipt ?s1) (receipt_arrays ?s1 d))
              = (case res of None \<Rightarrow> None
                 | Some i' \<Rightarrow> Some (i', map (load_receipt s') (receipt_arrays s' d)))
         \<and> extends ?s1 s' \<and> receipts_fresh n s' d
         \<and> length (receipt_arrays s' d) = length (receipt_arrays ?s1 d)"
      using Cons.IH [OF slice_allocated_extends [OF ext Cons.prems(1)] loaded(2) lim _ run]
        Cons.prems(4) toks by simp
    have pure: "attach_recipients (load_message s msg)
                  (map (\<lambda>j. tokens_at s (To msg) ! j) (j # rest)) i
                  (map (load_receipt s) (receipt_arrays s d))
                = attach_recipients (load_message ?s1 msg)
                    (map (\<lambda>j. tokens_at ?s1 (To msg) ! j) rest) (i + 1)
                    (map (load_receipt ?s1) (receipt_arrays ?s1 d))"
      using True loaded(1) toks load_message_extends [OF ext Cons.prems(1)]
      by (simp add: Let_def)
    from ih pure ext loaded(3) show ?thesis
      by (auto intro: extends_trans)
  qed
qed

lemma attach_messages_store_refines:
  assumes "\<forall>m \<in> set (messages_at s messages). slice_allocated s (To m)"
    and "receipts_fresh n s d" and "n \<le> next_ref s"
    and "\<forall>k \<in> set ks. k < length (messages_at s messages)"
    and "attach_messages_store ks messages i d s = (res, s')"
  shows "attach_messages (map (\<lambda>k. load_message s (messages_at s messages ! k)) ks) i
           (map (load_receipt s) (receipt_arrays s d))
         = (case res of None \<Rightarrow> None
            | Some i' \<Rightarrow> Some (i', map (load_receipt s') (receipt_arrays s' d)))
    \<and> extends s s' \<and> receipts_fresh n s' d
    \<and> length (receipt_arrays s' d) = length (receipt_arrays s d)"
  using assms
proof (induction ks arbitrary: i s)
  case Nil
  then show ?case by (auto simp add: extends_refl)
next
  case (Cons k rest)
  let ?M = "messages_at s messages"
  let ?msg = "?M ! k"
  let ?js = "[0..<length (tokens_at s (To ?msg))]"
  from Cons.prems(4) have k: "k < length ?M" by simp
  then have alloc: "slice_allocated s (To ?msg)"
    using Cons.prems(1) by simp
  obtain res1 s1 where inner: "attach_recipients_store ?msg ?js i d s = (res1, s1)"
    by (cases "attach_recipients_store ?msg ?js i d s") auto
  have all: "map (\<lambda>j. tokens_at s (To ?msg) ! j) ?js = To (load_message s ?msg)"
    by (simp add: map_nth load_message_def To_with_To)
  from attach_recipients_store_refines [OF alloc Cons.prems(2,3) _ inner]
  have one: "attach_recipients (load_message s ?msg) (To (load_message s ?msg)) i
               (map (load_receipt s) (receipt_arrays s d))
             = (case res1 of None \<Rightarrow> None
                | Some i' \<Rightarrow> Some (i', map (load_receipt s1) (receipt_arrays s1 d)))"
    and ext: "extends s s1" and fresh: "receipts_fresh n s1 d"
    and len: "length (receipt_arrays s1 d) = length (receipt_arrays s d)"
    unfolding all by simp_all
  show ?case
  proof (cases res1)
    case None
    with Cons.prems(5) k inner have "res = None" "s' = s1"
      by (simp_all add: Let_def)
    with None one ext fresh len show ?thesis by simp
  next
    case (Some i1)
    with Cons.prems(5) k inner have run: "attach_messages_store rest messages i1 d s1 = (res, s')"
      by (simp add: Let_def)
    have same: "messages_at s1 messages = ?M"
      using ext by (auto simp add: messages_at_def extends_def split: option.splits)
    have alloc1: "\<forall>m \<in> set (messages_at s1 messages). slice_allocated s1 (To m)"
      unfolding same using Cons.prems(1) slice_allocated_extends [OF ext] by blast
    have lim: "n \<le> next_ref s1"
      using Cons.prems(3) ext by (simp add: extends_def)
    have ks: "\<forall>k \<in> set rest. k < length (messages_at s1 messages)"
      unfolding same using Cons.prems(4) by simp
    have loads: "map (\<lambda>k. load_message s1 (messages_at s1 messages ! k)) rest
                   = map (\<lambda>k. load_message s (?M ! k)) rest"
      unfolding same using Cons.prems(1,4) load_message_extends [OF ext]
      by (simp add: nth_mem)
    from Cons.IH [OF alloc1 fresh lim ks run]
    have two: "attach_messages (map (\<lambda>k. load_message s (?M ! k)) rest) i1
                 (map (load_receipt s1) (receipt_arrays s1 d))
               = (case res of None \<Rightarrow> None
                  | Some i' \<Rightarrow> Some (i', map (load_receipt s') (receipt_arrays s' d)))"
      and ext': "extends s1 s'" and fresh': "receipts_fresh n s' d"
      and len': "length (receipt_arrays s' d) = length (receipt_arrays s1 d)"
      unfolding loads by simp_all
    from one two Some ext ext' fresh' len len' show ?thesis
      by (auto intro: extends_trans)
  qed
qed

lemma with_To_back: "with_To (To m) (with_To sl m) = (m :: tokens PushMessage)"
  by (cases m) (simp add: with_To_def)

lemma store_receipts_loaded:
  "n \<le> next_ref s \<Longrightarrow> store_receipts rs s = (stored, s') \<Longrightarrow>
     extends s s' \<and> map (load_receipt s') stored = rs
     \<and> (\<forall>r \<in> set stored.
           case To (PushMessage r) of None \<Rightarrow> True | Some p \<Rightarrow> n \<le> p \<and> p < next_ref s')"
proof (induction rs arbitrary: s stored s')
  case Nil
  then show ?case by (simp add: extends_refl)
next
  case (Cons r rest)
  let ?first = "if To (PushMessage r) = [] then (None, s)
                else new_tokens (To (PushMessage r)) s"
  obtain sl s1 where first: "?first = (sl, s1)"
    by (cases ?first) auto
  obtain rs' s2 where others: "store_receipts rest s1 = (rs', s2)"
    by (cases "store_receipts rest s1") auto
  let ?x = "\<lparr>PushMessage = with_To sl (PushMessage r),
             PushResponse.Status = PushResponse.Status r,
             Message = Message r, Details = Details r\<rparr>"
  from Cons.prems(2) first others have res: "stored = ?x # rs'" "s' = s2"
    by (simp_all add: Let_def)
  from first Cons.prems(1)
  have one: "extends s s1" "n \<le> next_ref s1" "tokens_at s1 sl = To (PushMessage r)"
    "slice_allocated s1 sl"
    "case sl of None \<Rightarrow> True | Some p \<Rightarrow> n \<le> p \<and> p < next_ref s1"
    by (auto simp add: new_tokens_def extends_def tokens_at_def slice_allocated_def
        split: if_splits)
  from Cons.IH [OF one(2) others]
  have two: "extends s1 s2" "map (load_receipt s2) rs' = rest"
    "\<forall>r \<in> set rs'. case To (PushMessage r) of None \<Rightarrow> True
                       | Some p \<Rightarrow> n \<le> p \<and> p < next_ref s2"
    by simp_all
  have "tokens_at s2 sl = To (PushMessage r)"
    using tokens_at_extends [OF two(1) one(4)] one(3) by simp
  then have restored: "load_receipt s2 ?x = r"
    by (simp add: load_receipt_def load_message_def To_with_To with_To_back)
  have bound: "case To (PushMessage ?x) of None \<Rightarrow> True | Some p \<Rightarrow> n \<le> p \<and> p < next_ref s2"
    using one(5) two(1) by (auto simp add: To_with_To extends_def split: option.splits)
  from one(1) two restored bound show ?case
    unfolding res by (auto intro: extends_trans)
qed

lemma decode_into_store_loaded:
  assumes "n \<le> next_ref s" and "decode_into_store r s = (data, s1)"
  shows "extends s s1
    \<and> (case data of
          None \<Rightarrow> Response.Data r = None
        | Some d \<Rightarrow> Response.Data r = Some (map (load_receipt s1) (receipt_arrays s1 d))
                    \<and> receipts_fresh n s1 d)"
proof (cases "Response.Data r")
  case None
  with assms(2) show ?thesis
    by (auto simp add: decode_into_store_def extends_refl)
next
  case (Some receipts)
  obtain stored s0 where st: "store_receipts receipts s = (stored, s0)"
    by (cases "store_receipts receipts s") auto
  from assms(2) Some st have data: "data = Some (next_ref s0)"
    and s1: "s1 = s0\<lparr>receipt_arrays := (receipt_arrays s0)(next_ref s0 := stored),
                     next_ref := Suc (next_ref s0)\<rparr>"
    by (auto simp add: decode_into_store_def new_receipts_def)
  from store_receipts_loaded [OF assms(1) st]
  have a: "extends s s0" "map (load_receipt s0) stored = receipts"
    "\<forall>r \<in> set stored. case To (PushMessage r) of None \<Rightarrow> True
                         | Some p \<Rightarrow> n \<le> p \<and> p < next_ref s0"
    by simp_all
  have ext: "extends s0 s1"
    by (simp add: s1 extends_def)
  have "load_receipt s1 x = load_receipt s0 x" if "x \<in> set stored" for x
    using a(3) that load_receipt_extends [OF ext, of x]
    by (auto simp add: slice_allocated_def split: option.splits)
  then have "map (load_receipt s1) stored = receipts"
    using a(2) by (simp cong: map_cong)
  moreover have "receipts_fresh n s1 (next_ref s0)"
    using a(3) by (auto simp add: receipts_fresh_def s1 split: option.splits)
  moreover have "receipt_arrays s1 (next_ref s0) = stored"
    by (simp add: s1)
  ultimately show ?thesis
    using a(1) ext Some data by (auto intro: extends_trans)
qed

lemma publishInternal_reconcile_store_refines:
  assumes "\<forall>m \<in> set (messages_at s messages). slice_allocated s (To m)"
    and "case data of
           None \<Rightarrow> Response.Data r = None
         | Some d \<Rightarrow> Response.Data r = Some (map (load_receipt s) (receipt_arrays s d))
                     \<and> receipts_fresh n s d"
    and "n \<le> next_ref s"
    and "publishInternal_reconcile_store resp r data messages expectedReceipts s = (outcome, s')"
  shows "publishInternal_reconcile resp r (load_batch s messages) expectedReceipts
           = load_outcome s' outcome
    \<and> (\<forall>d. outcome = Ok d \<longrightarrow> receipts_fresh n s' d)"
proof (cases "Errors r \<noteq> None \<or> data = None
              \<or> (\<exists>d. data = Some d \<and> expectedReceipts \<noteq> length (receipt_arrays s d))")
  case True
  with assms(2,4) show ?thesis
    by (auto simp add: publishInternal_reconcile_store_def publishInternal_reconcile_def
        load_outcome_def load_batch_def split: option.splits)
next
  case False
  then obtain d where d: "data = Some d" and e: "Errors r = None"
    and n: "expectedReceipts = length (receipt_arrays s d)"
    by auto
  from assms(2) d have dat: "Response.Data r = Some (map (load_receipt s) (receipt_arrays s d))"
    and fresh: "receipts_fresh n s d"
    by simp_all
  let ?ks = "[0..<length (messages_at s messages)]"
  obtain res s2 where walk: "attach_messages_store ?ks messages 0 d s = (res, s2)"
    by (cases "attach_messages_store ?ks messages 0 d s") auto
  have all: "map (\<lambda>k. load_message s (messages_at s messages ! k)) ?ks = load_batch s messages"
    by (rule nth_equalityI) (simp_all add: load_batch_def)
  from attach_messages_store_refines [OF assms(1) fresh assms(3) _ walk]
  have pure: "attach_messages (load_batch s messages) 0 (map (load_receipt s) (receipt_arrays s d))
                = (case res of None \<Rightarrow> None
                   | Some i' \<Rightarrow> Some (i', map (load_receipt s2) (receipt_arrays s2 d)))"
    and fresh2: "receipts_fresh n s2 d"
    unfolding all by simp_all
  from assms(4) d e n walk have out: "outcome = (case res of None \<Rightarrow> Panic index_out_of_range
                                                | Some i \<Rightarrow> Ok d)" "s' = s2"
    by (auto simp add: publishInternal_reconcile_store_def split: option.splits)
  show ?thesis
    using e dat n pure fresh2 out
    by (auto simp add: publishInternal_reconcile_def load_outcome_def split: option.splits)
qed

lemma publishInternal_store_refines:
  assumes "batch_allocated s messages"
  shows "snd (fst (publishInternal_store lib c messages s))
           = snd (publishInternal lib c (load_batch s messages))
    \<and> fst (publishInternal lib c (load_batch s messages))
        = load_outcome (snd (publishInternal_store lib c messages s))
            (fst (fst (publishInternal_store lib c messages s)))
    \<and> (\<forall>d. fst (fst (publishInternal_store lib c messages s)) = Ok d \<longrightarrow>
           receipts_fresh (next_ref s) (snd (publishInternal_store lib c messages s)) d)"
proof -
  have tail: "publishInternal_reconcile resp r (load_batch s messages) expectedReceipts
        = load_outcome
            (snd (let (data, s1) = decode_into_store r s;
                      (outcome, s2) =
                         publishInternal_reconcile_store resp r data messages expectedReceipts s1
                  in ((outcome, sent), s2)))
            (fst (fst (let (data, s1) = decode_into_store r s;
                      (outcome, s2) =
                         publishInternal_reconcile_store resp r data messages expectedReceipts s1
                  in ((outcome, sent), s2))))
      \<and> snd (fst (let (data, s1) = decode_into_store r s;
                      (outcome, s2) =
                         publishInternal_reconcile_store resp r data messages expectedReceipts s1
                  in ((outcome, sent), s2))) = sent
      \<and> (\<forall>d. fst (fst (let (data, s1) = decode_into_store r s;
                      (outcome, s2) =
                         publishInternal_reconcile_store resp r data messages expectedReceipts s1
                  in ((outcome, sent), s2))) = Ok d \<longrightarrow>
           receipts_fresh (next_ref s)
             (snd (let (data, s1) = decode_into_store r s;
                      (outcome, s2) =
                         publishInternal_reconcile_store resp r data messages expectedReceipts s1
                  in ((outcome, sent), s2))) d)"
    for r resp expectedReceipts and sent :: "http_Request list"
  proof -
    obtain data s1 where dec: "decode_into_store r s = (data, s1)"
      by (cases "decode_into_store r s") auto
    obtain outcome s2 where rec:
      "publishInternal_reconcile_store resp r data messages expectedReceipts s1 = (outcome, s2)"
      by (cases "publishInternal_reconcile_store resp r data messages expectedReceipts s1") auto
    from decode_into_store_loaded [OF order_refl dec]
    have ext: "extends s s1"
      and dat: "case data of
                  None \<Rightarrow> Response.Data r = None
                | Some d \<Rightarrow> Response.Data r = Some (map (load_receipt s1) (receipt_arrays s1 d))
                            \<and> receipts_fresh (next_ref s) s1 d"
      by simp_all
    have same: "messages_at s1 messages = messages_at s messages"
      using ext by (auto simp add: messages_at_def extends_def split: option.splits)
    have alloc: "\<forall>m \<in> set (messages_at s1 messages). slice_allocated s1 (To m)"
      unfolding same using assms slice_allocated_extends [OF ext]
      by (auto simp add: batch_allocated_def)
    have batch: "load_batch s1 messages = load_batch s messages"
      unfolding load_batch_def same using assms load_message_extends [OF ext]
      by (simp add: batch_allocated_def)
    have lim: "next_ref s \<le> next_ref s1"
      using ext by (simp add: extends_def)
    from publishInternal_reconcile_store_refines [OF alloc dat lim rec]
    show ?thesis
      by (simp add: dec rec batch)
  qed
  let ?batch = "load_batch s messages"
  let ?target = "host c @ apiURL c @ ''/push/send''"
  note defs = publishInternal_store_def publishInternal_def publishInternal_send_def
    http_NewRequest_def Let_def
  show ?thesis
  proof (cases "publishInternal_validate ?batch 0")
    case (Inl e)
    then show ?thesis
      unfolding defs by (simp add: load_outcome_def)
  next
    case valid: (Inr n)
    show ?thesis
    proof (cases "json_Marshal lib ?batch")
      case (Inl e)
      then show ?thesis
        unfolding defs by (simp add: valid load_outcome_def)
    next
      case marshal: (Inr jsonBytes)
      show ?thesis
      proof (cases "url_Parse lib ?target")
        case (Some e)
        then show ?thesis
          unfolding defs by (simp add: valid marshal load_outcome_def)
      next
        case parse: None
        have req: "(if accessToken c \<noteq> ''''
              then Header_Add (Header_Add \<lparr>Method = ''POST'', URL = ?target,
                     http_Request.Body = jsonBytes, Header = []\<rparr> ''Content-Type'' ''application/json'')
                     ''Authorization'' (''Bearer '' @ accessToken c)
              else Header_Add \<lparr>Method = ''POST'', URL = ?target,
                     http_Request.Body = jsonBytes, Header = []\<rparr> ''Content-Type'' ''application/json'')
             = request_for c jsonBytes"
          by (simp add: Header_Add_def request_for_def)
        show ?thesis
        proof (cases "httpClient c (request_for c jsonBytes)")
          case (Inl e)
          show ?thesis
            unfolding defs
            by (simp only: valid marshal parse req Inl sum.case option.case)
               (simp add: load_outcome_def)
        next
          case answer: (Inr resp)
          show ?thesis
          proof (cases "checkStatus resp :: tokens error option")
            case (Some e)
            show ?thesis
              unfolding defs
              by (simp only: valid marshal parse req answer Some sum.case option.case)
                 (simp add: load_outcome_def)
          next
            case status: None
            show ?thesis
            proof (cases "json_Decode lib (http_Response.Body resp)")
              case (Inl e)
              show ?thesis
                unfolding defs
                by (simp only: valid marshal parse req answer status Inl sum.case option.case)
                   (simp add: load_outcome_def)
            next
              case decoded: (Inr envelope)
              show ?thesis
              proof (cases envelope)
                case None
                show ?thesis
                  unfolding defs
                  by (simp only: valid marshal parse req answer status decoded None
                      sum.case option.case)
                     (simp add: load_outcome_def)
              next
                case (Some r)
                show ?thesis
                  unfolding defs
                  by (simp only: valid marshal parse req answer status decoded Some
                      sum.case option.case)
                     (simp add: tail [unfolded Let_def])
              qed
            qed
          qed
        qed
      qed
    qed
  qed
qed

lemma sample_publish:
  "PublishMultiple (lib_decoding (Some (envelope_of three_receipts)))
       (client_receiving response_200) batch_2_1
     = (Ok [(receipt_of [] ''ok'')\<lparr>PushMessage := message_to [''ExponentPushToken[a]''] ''first''\<rparr>,
            (receipt_of [] ''error'')\<lparr>PushMessage := message_to [''ExponentPushToken[b]''] ''first''\<rparr>,
            (receipt_of [] ''ok'')\<lparr>PushMessage := message_to [''ExponentPushToken[c]''] ''second''\<rparr>],
        [\<lparr>Method = ''POST'', URL = ''https://exp.host/--/api/v2/push/send'',
          http_Request.Body = ''[]'',
          Header = [(''Content-Type'', ''application/json'')]\<rparr>])"
  by (simp add: PublishMultiple_def publishInternal_def publishInternal_send_def
      publishInternal_reconcile_def http_NewRequest_def Header_Add_def checkStatus_def
      lib_decoding_def client_receiving_def response_200_def envelope_of_def three_receipts_def
      batch_2_1_def message_to_def receipt_of_def Let_def)

lemma sample_store_batch:
  "batch_allocated sample_store (Some 2) \<and> load_batch sample_store (Some 2) = batch_2_1"
  by (simp add: batch_allocated_def slice_allocated_def sample_store_def messages_at_def
      load_batch_def load_message_def with_To_def tokens_at_def batch_2_1_def message_to_def)

text \<open>
  Claim C10. \<open>PublishMultiple\<close> does not mutate its input batch. Whatever the outcome,
  every array that was in the store before the call is unchanged after it; so the caller's
  slice of messages and the recipient lists of its messages read as before. Read back
  from the store, the outcome and the requests sent are those of \<open>PublishMultiple\<close> on
  the values of the batch, and the recipient slices of the returned receipts are arrays
  made during the call, none of them an array of the caller.
\<close>

theorem input_batch_not_mutated:
  "unchanged_below (next_ref s) s (snd (PublishMultiple_store lib c messages s))
   \<and> (batch_allocated s messages \<longrightarrow>
        messages_at (snd (PublishMultiple_store lib c messages s)) messages
          = messages_at s messages
        \<and> load_batch (snd (PublishMultiple_store lib c messages s)) messages
          = load_batch s messages
        \<and> load_outcome (snd (PublishMultiple_store lib c messages s))
            (fst (fst (PublishMultiple_store lib c messages s)))
          = fst (PublishMultiple lib c (load_batch s messages))
        \<and> snd (fst (PublishMultiple_store lib c messages s))
          = snd (PublishMultiple lib c (load_batch s messages))
        \<and> (\<forall>d. fst (fst (PublishMultiple_store lib c messages s)) = Ok d \<longrightarrow>
              receipts_fresh (next_ref s) (snd (PublishMultiple_store lib c messages s)) d))"
  using publishInternal_store_frame [of s lib c messages]
    load_batch_unchanged [OF publishInternal_store_frame [of s lib c messages]]
    publishInternal_store_refines [of s messages lib c]
  by (simp add: PublishMultiple_store_def PublishMultiple_def)

theorem input_batch_not_mutated_witness:
  "batch_allocated sample_store (Some 2)
   \<and> load_batch sample_store (Some 2) = batch_2_1
   \<and> load_batch (snd (PublishMultiple_store (lib_decoding (Some (envelope_of three_receipts)))
                        (client_receiving response_200) (Some 2) sample_store)) (Some 2)
       = batch_2_1
   \<and> load_outcome (snd (PublishMultiple_store (lib_decoding (Some (envelope_of three_receipts)))
                        (client_receiving response_200) (Some 2) sample_store))
        (fst (fst (PublishMultiple_store (lib_decoding (Some (envelope_of three_receipts)))
                        (client_receiving response_200) (Some 2) sample_store)))
       = Ok [(receipt_of [] ''ok'')\<lparr>PushMessage := message_to [''ExponentPushToken[a]''] ''first''\<rparr>,
             (receipt_of [] ''error'')\<lparr>PushMessage := message_to [''ExponentPushToken[b]''] ''first''\<rparr>,
             (receipt_of [] ''ok'')\<lparr>PushMessage := message_to [''ExponentPushToken[c]''] ''second''\<rparr>]"
  using input_batch_not_mutated [of sample_store "lib_decoding (Some (envelope_of three_receipts))"
      "client_receiving response_200" "Some 2"]
    sample_store_batch sample_publish
  by simp

end
